theory Spec2Isabelle
  imports Complex_Main "HOL-Library.Sublist"
begin

text \<open>
  The workstation is a React component (\<open>App.tsx\<close>) over a service module
  (\<open>services/geminiService.ts\<close>).
\<close>

section \<open>JavaScript numbers\<close>

text \<open>
  A JavaScript number is an IEEE 754 double. The finite doubles are modelled as the reals
  they denote, and every arithmetic operation of the source rounds its exact result to
  the nearest double, a tie going to the even significand: 53 bits of precision, the
  smallest exponent that of the subnormal numbers. \<open>NaN\<close>, the infinities and the sign
  of zero are not represented: a result beyond the largest double, a division by zero
  and the square root of a negative number lie outside the model, and the theorems below
  bound their inputs so that none of them occurs.
\<close>

definition pow2 :: "int \<Rightarrow> real" where
  "pow2 k = (if 0 \<le> k then 2 ^ nat k else 1 / 2 ^ nat (- k))"

definition round_half_even :: "real \<Rightarrow> int" where
  "round_half_even v =
     (let f = \<lfloor>v\<rfloor>; d = v - of_int f
      in if d < 1 / 2 then f else if 1 / 2 < d then f + 1 else if even f then f else f + 1)"

text \<open>The distance between neighbouring doubles at the magnitude of \<open>v\<close>.\<close>

definition ulp :: "real \<Rightarrow> real" where
  "ulp v = pow2 (max \<lfloor>log 2 \<bar>v\<bar>\<rfloor> (- 1022) - 52)"

definition to_double :: "real \<Rightarrow> real" where
  "to_double v = (if v = 0 then 0 else ulp v * of_int (round_half_even (v / ulp v)))"

text \<open>
  The operators \<open>+\<close>, \<open>-\<close>, \<open>*\<close>, \<open>/\<close> and the library functions the source
  calls. \<open>Math.sqrt\<close> is the correctly rounded square root of IEEE 754, and
  \<open>Math.pow\<close>, which the source calls with the exponent 2 only, is the rounded product
  of its argument with itself, as the engines compute a square. \<open>Math.round\<close> returns
  the integer nearest to its argument, a tie going towards \<open>+\<infinity>\<close>; that integer is a
  double whenever the argument is one. \<open>Math.max\<close>, \<open>Math.min\<close> and \<open><\<close> do not
  round.
\<close>

definition js_add :: "real \<Rightarrow> real \<Rightarrow> real" where
  "js_add a b = to_double (a + b)"

definition js_sub :: "real \<Rightarrow> real \<Rightarrow> real" where
  "js_sub a b = to_double (a - b)"

definition js_mul :: "real \<Rightarrow> real \<Rightarrow> real" where
  "js_mul a b = to_double (a * b)"

definition js_div :: "real \<Rightarrow> real \<Rightarrow> real" where
  "js_div a b = to_double (a / b)"

definition Math_sqrt :: "real \<Rightarrow> real" where
  "Math_sqrt v = to_double (sqrt v)"

definition Math_pow :: "real \<Rightarrow> nat \<Rightarrow> real" where
  "Math_pow v n = to_double (v ^ n)"

definition Math_round :: "real \<Rightarrow> real" where
  "Math_round v = of_int \<lfloor>v + 1 / 2\<rfloor>"

section \<open>Data model\<close>

record File =
  file_name :: string
  file_type :: string
  file_data :: string

record image_handle =
  img_file :: File
  img_url :: string

record point =
  pt_x :: real
  pt_y :: real

text \<open>\<open>types.ts\<close>: the two result interfaces.\<close>

record AnalysisResult =
  positive_nuclei_count :: real
  negative_nuclei_count :: real
  total_nuclei_count :: real

text \<open>
  What \<open>JSON.parse\<close> returns. An object is the list of its own properties; reading a
  property takes the first binding of the key.
\<close>

datatype json =
    JNull
  | JBool bool
  | JNum real
  | JStr string
  | JArr "json list"
  | JObj "(string \<times> json) list"

record QualityCheckResult =
  is_suitable :: bool
  feedback :: string
  issues :: "json list"

datatype js_type = T_undefined | T_object | T_boolean | T_number | T_string

text \<open>Every \<open>throw\<close> and promise rejection of the two source files.\<close>

datatype js_error =
    ModelCallFailed
  | SyntaxError
  | TypeError
  | InvalidDataFormat
  | InvalidQualityFormat
  | NoImageData
  | InvalidCharacterError
  | FileReadFailed
  | CanvasFailed

datatype capability = CheckQuality | CountNuclei | EditImage

text \<open>
  The observable effects of a workflow step, in program order: a call of the progress
  callback, the start of a \<open>generateContent\<close> request for a given image file, and the
  settling (fulfilment or rejection) of that request.
\<close>

datatype event =
    Progress real
  | CallIssued capability File
  | CallSettled capability

text \<open>
  The outcome of one \<open>generateContent\<close> call followed by \<open>JSON.parse(response.text)\<close>:
  the call rejects, the text is not JSON, or a value is parsed.
\<close>

datatype call_outcome = CallRejected | BadJSON | Parsed json

text \<open>
  The host capabilities the code relies on: \<open>FileReader\<close> (the base64 payload of a file,
  or a read error) and the canvas pipeline of \<open>getMaskedFile\<close> (the PNG blob of the
  clipped image, or a failure).
\<close>

record env =
  readFile :: "File \<Rightarrow> js_error + string"
  rasterize :: "File \<Rightarrow> point list \<Rightarrow> js_error + string"

section \<open>services/geminiService.ts\<close>

definition fileToBase64 :: "env \<Rightarrow> File \<Rightarrow> js_error + string" where
  "fileToBase64 e f = readFile e f"

text \<open>
  \<open>value.key\<close>: \<open>None\<close> is \<open>undefined\<close>. Reading a property of \<open>null\<close> throws a
  \<open>TypeError\<close>, which the callers below handle before they read; numbers, booleans,
  strings and arrays have none of the property names the code reads.
\<close>

fun get_prop :: "json \<Rightarrow> string \<Rightarrow> json option" where
  "get_prop (JObj kvs) k = map_of kvs k"
| "get_prop _ k = None"

fun typeof :: "json option \<Rightarrow> js_type" where
  "typeof None = T_undefined"
| "typeof (Some JNull) = T_object"
| "typeof (Some (JBool b)) = T_boolean"
| "typeof (Some (JNum r)) = T_number"
| "typeof (Some (JStr s)) = T_string"
| "typeof (Some (JArr xs)) = T_object"
| "typeof (Some (JObj kvs)) = T_object"

fun isArray :: "json option \<Rightarrow> bool" where
  "isArray (Some (JArr xs)) = True"
| "isArray _ = False"

text \<open>Reading a checked field back; the last equations are never reached after the checks.\<close>

fun number_of :: "json option \<Rightarrow> real" where
  "number_of (Some (JNum r)) = r"
| "number_of _ = 0"

fun boolean_of :: "json option \<Rightarrow> bool" where
  "boolean_of (Some (JBool b)) = b"
| "boolean_of _ = False"

fun string_of :: "json option \<Rightarrow> string" where
  "string_of (Some (JStr s)) = s"
| "string_of _ = []"

fun array_of :: "json option \<Rightarrow> json list" where
  "array_of (Some (JArr xs)) = xs"
| "array_of _ = []"

text \<open>
  \<open>runSingleAnalysis\<close> (lines 176-187), given what the request and \<open>JSON.parse\<close>
  produced.
\<close>

definition runSingleAnalysis :: "call_outcome \<Rightarrow> js_error + AnalysisResult" where
  "runSingleAnalysis out =
     (case out of
        CallRejected \<Rightarrow> Inl ModelCallFailed
      | BadJSON \<Rightarrow> Inl SyntaxError
      | Parsed parsedResult \<Rightarrow>
          if parsedResult = JNull then Inl TypeError
          else if typeof (get_prop parsedResult ''positive_nuclei_count'') \<noteq> T_number \<or>
                  typeof (get_prop parsedResult ''negative_nuclei_count'') \<noteq> T_number \<or>
                  typeof (get_prop parsedResult ''total_nuclei_count'') \<noteq> T_number
          then Inl InvalidDataFormat
          else Inr \<lparr> positive_nuclei_count = number_of (get_prop parsedResult ''positive_nuclei_count''),
                     negative_nuclei_count = number_of (get_prop parsedResult ''negative_nuclei_count''),
                     total_nuclei_count = number_of (get_prop parsedResult ''total_nuclei_count'') \<rparr>)"

text \<open>
  \<open>analyzeIHCImage\<close> (lines 123-203): the trace of effects and the settled value of the
  returned promise. \<open>out1\<close> and \<open>out2\<close> are the outcomes of the first and the second
  request; the second is looked at only when the first pass has returned.
\<close>

definition analyzeIHCImage ::
  "env \<Rightarrow> File \<Rightarrow> call_outcome \<Rightarrow> call_outcome \<Rightarrow> event list \<times> (js_error + AnalysisResult)" where
  "analyzeIHCImage e imageFile out1 out2 =
     (let t0 = [Progress 0] in
      case fileToBase64 e imageFile of
        Inl err \<Rightarrow> (t0, Inl err)
      | Inr base64Image \<Rightarrow>
          let t1 = t0 @ [CallIssued CountNuclei imageFile, CallSettled CountNuclei] in
          (case runSingleAnalysis out1 of
             Inl err \<Rightarrow> (t1, Inl err)
           | Inr result1 \<Rightarrow>
               let t2 = t1 @ [Progress 50, CallIssued CountNuclei imageFile, CallSettled CountNuclei] in
               (case runSingleAnalysis out2 of
                  Inl err \<Rightarrow> (t2, Inl err)
                | Inr result2 \<Rightarrow>
                    let t3 = t2 @ [Progress 100];
                        avgPositive =
                          Math_round (js_div (js_add (positive_nuclei_count result1)
                                                     (positive_nuclei_count result2)) 2);
                        avgNegative =
                          Math_round (js_div (js_add (negative_nuclei_count result1)
                                                     (negative_nuclei_count result2)) 2)
                    in (t3, Inr \<lparr> positive_nuclei_count = avgPositive,
                                  negative_nuclei_count = avgNegative,
                                  total_nuclei_count = js_add avgPositive avgNegative \<rparr>))))"

text \<open>\<open>performQualityCheck\<close> (lines 61-120).\<close>

definition performQualityCheck ::
  "env \<Rightarrow> File \<Rightarrow> call_outcome \<Rightarrow> event list \<times> (js_error + QualityCheckResult)" where
  "performQualityCheck e imageFile out =
     (case fileToBase64 e imageFile of
        Inl err \<Rightarrow> ([], Inl err)
      | Inr base64Image \<Rightarrow>
          let t = [CallIssued CheckQuality imageFile, CallSettled CheckQuality] in
          (case out of
             CallRejected \<Rightarrow> (t, Inl ModelCallFailed)
           | BadJSON \<Rightarrow> (t, Inl SyntaxError)
           | Parsed parsedResult \<Rightarrow>
               if parsedResult = JNull then (t, Inl TypeError)
               else if typeof (get_prop parsedResult ''is_suitable'') \<noteq> T_boolean \<or>
                       typeof (get_prop parsedResult ''feedback'') \<noteq> T_string \<or>
                       \<not> isArray (get_prop parsedResult ''issues'')
               then (t, Inl InvalidQualityFormat)
               else (t, Inr \<lparr> is_suitable = boolean_of (get_prop parsedResult ''is_suitable''),
                              feedback = string_of (get_prop parsedResult ''feedback''),
                              issues = array_of (get_prop parsedResult ''issues'') \<rparr>)))"

text \<open>
  \<open>editImageWithText\<close> (lines 31-59). The response of the image model is outside the
  JSON path: \<open>out\<close> is the rejection of the request, a response without an image part,
  an image part whose data \<open>atob\<close> refuses (\<open>base64ToFile\<close> then throws), or the
  decoded image with the object URL that \<open>base64ToFile\<close> created for it.
\<close>

datatype edit_outcome =
    EditRejected
  | EditNoImage
  | EditUndecodable
  | EditImageData string string string

definition editImageWithText ::
  "env \<Rightarrow> File \<Rightarrow> string \<Rightarrow> edit_outcome \<Rightarrow> event list \<times> (js_error + image_handle)" where
  "editImageWithText e imageFile prompt_text out =
     (case fileToBase64 e imageFile of
        Inl err \<Rightarrow> ([], Inl err)
      | Inr base64Image \<Rightarrow>
          let t = [CallIssued EditImage imageFile, CallSettled EditImage] in
          (case out of
             EditRejected \<Rightarrow> (t, Inl ModelCallFailed)
           | EditNoImage \<Rightarrow> (t, Inl NoImageData)
           | EditUndecodable \<Rightarrow> (t, Inl InvalidCharacterError)
           | EditImageData enhancedBase64 mimeType u \<Rightarrow>
               (t, Inr \<lparr> img_file = \<lparr> file_name = ''edited_'' @ file_name imageFile,
                                       file_type = mimeType,
                                       file_data = enhancedBase64 \<rparr>,
                          img_url = u \<rparr>)))"

section \<open>App.tsx: component state\<close>

datatype Mode = ANALYSIS | EDIT

record mouse_event =
  clientX :: real
  clientY :: real
  rect_left :: real
  rect_top :: real
  rect_width :: real
  rect_height :: real

text \<open>
  The \<open>useState\<close> cells of \<open>App\<close> (lines 38-54), together with the two browser
  resources the handlers write: \<open>localStorage\<close>, each stored text standing for the JSON
  value it encodes, and the log of \<open>URL.revokeObjectURL\<close> calls.
\<close>

record app_state =
  mode :: Mode
  image_s :: "image_handle option"
  analysisResult :: "AnalysisResult option"
  isLoading :: bool
  error :: "string option"
  prompt :: string
  qualityCheckResult :: "QualityCheckResult option"
  isQualityChecking :: bool
  qualityCheckError :: "string option"
  analysisProgress :: "real option"
  selectionPoints :: "point list"
  isDrawing :: bool
  previewPoint :: "point option"
  localStorage :: "string \<rightharpoonup> json"
  revokedURLs :: "string list"

definition initialState :: "(string \<rightharpoonup> json) \<Rightarrow> app_state" where
  "initialState store =
     \<lparr> mode = ANALYSIS, image_s = None, analysisResult = None, isLoading = False,
       error = None, prompt = [], qualityCheckResult = None, isQualityChecking = False,
       qualityCheckError = None, analysisProgress = None, selectionPoints = [],
       isDrawing = True, previewPoint = None, localStorage = store, revokedURLs = [] \<rparr>"

text \<open>\<open>JSON.stringify\<close> of the two values that \<open>handleAnalyzeClick\<close> persists.\<close>

definition result_json :: "AnalysisResult \<Rightarrow> json" where
  "result_json r =
     JObj [(''positive_nuclei_count'', JNum (positive_nuclei_count r)),
           (''negative_nuclei_count'', JNum (negative_nuclei_count r)),
           (''total_nuclei_count'', JNum (total_nuclei_count r))]"

definition image_json :: "string \<Rightarrow> File \<Rightarrow> json" where
  "image_json base64Image f =
     JObj [(''base64'', JStr base64Image), (''name'', JStr (file_name f)), (''type'', JStr (file_type f))]"

text \<open>
  The mount effect (lines 58-76). It runs its \<open>try\<close> block only when both keys hold a
  value; \<open>parsed\<close> is what the block decodes (\<open>JSON.parse\<close> twice and
  \<open>base64ToFile\<close>), \<open>None\<close> when one of them throws.
\<close>

definition sessionRecordPresent :: "app_state \<Rightarrow> bool" where
  "sessionRecordPresent s =
     (localStorage s ''lastAnalysisResult'' \<noteq> None \<and> localStorage s ''lastAnalysisImage'' \<noteq> None)"

definition loadLastSession :: "(AnalysisResult \<times> image_handle) option \<Rightarrow> app_state \<Rightarrow> app_state" where
  "loadLastSession parsed s =
     (if sessionRecordPresent s then
        (case parsed of
           Some (savedResult, restoredImage) \<Rightarrow>
             s\<lparr> image_s := Some restoredImage,
                analysisResult := Some savedResult,
                qualityCheckResult :=
                  Some \<lparr> is_suitable = True, feedback = ''Restored from previous session.'', issues = [] \<rparr> \<rparr>
         | None \<Rightarrow>
             s\<lparr> localStorage := (localStorage s)(''lastAnalysisResult'' := None, ''lastAnalysisImage'' := None) \<rparr>)
      else s)"

section \<open>App.tsx: handlers\<close>

definition clearSelection :: "app_state \<Rightarrow> app_state" where
  "clearSelection s = s\<lparr> selectionPoints := [], isDrawing := True, previewPoint := None \<rparr>"

text \<open>\<open>resetState\<close> (lines 84-99); \<open>image?.url\<close> is truthy for a non-empty URL.\<close>

definition resetState :: "bool \<Rightarrow> app_state \<Rightarrow> app_state" where
  "resetState clearImage s =
     (let s1 = (case image_s s of
                  None \<Rightarrow> s
                | Some im \<Rightarrow>
                    if clearImage \<and> img_url im \<noteq> [] then
                      s\<lparr> revokedURLs := revokedURLs s @ [img_url im],
                         image_s := None,
                         localStorage := (localStorage s)(''lastAnalysisImage'' := None) \<rparr>
                    else s);
          s2 = clearSelection
                 (s1\<lparr> analysisResult := None, error := None, isLoading := False,
                      qualityCheckResult := None, isQualityChecking := False,
                      qualityCheckError := None, analysisProgress := None \<rparr>)
      in s2\<lparr> localStorage := (localStorage s2)(''lastAnalysisResult'' := None) \<rparr>)"

text \<open>\<open>handleImageUpload\<close> (lines 101-104); \<open>u\<close> is the URL that \<open>createObjectURL\<close> returns.\<close>

definition handleImageUpload :: "File \<Rightarrow> string \<Rightarrow> app_state \<Rightarrow> app_state" where
  "handleImageUpload f u s = (resetState True s)\<lparr> image_s := Some \<lparr> img_file = f, img_url = u \<rparr> \<rparr>"

definition getMaskedFile :: "env \<Rightarrow> File \<Rightarrow> point list \<Rightarrow> js_error + File" where
  "getMaskedFile e sourceFile points =
     (case rasterize e sourceFile points of
        Inl err \<Rightarrow> Inl err
      | Inr blob \<Rightarrow>
          Inr \<lparr> file_name = ''masked_'' @ file_name sourceFile, file_type = ''image/png'', file_data = blob \<rparr>)"

text \<open>\<open>getFileToProcess\<close> (lines 153-164): \<open>Inr None\<close> is the returned \<open>null\<close>.\<close>

definition getFileToProcess :: "env \<Rightarrow> app_state \<Rightarrow> js_error + File option" where
  "getFileToProcess e s =
     (case image_s s of
        None \<Rightarrow> Inr None
      | Some im \<Rightarrow>
          if length (selectionPoints s) > 2 \<and> \<not> isDrawing s then
            (let scaledPoints = map (\<lambda>p. \<lparr> pt_x = js_div (pt_x p) 100, pt_y = js_div (pt_y p) 100 \<rparr>)
                                    (selectionPoints s)
             in case getMaskedFile e (img_file im) scaledPoints of
                  Inl err \<Rightarrow> Inl err
                | Inr masked \<Rightarrow> Inr (Some masked))
          else Inr (Some (img_file im)))"

text \<open>
  \<open>handleQualityCheck\<close> (lines 167-183). A rejection of \<open>getFileToProcess\<close> happens
  before the \<open>try\<close> and leaves every cell as it was.
\<close>

definition handleQualityCheck :: "env \<Rightarrow> call_outcome \<Rightarrow> app_state \<Rightarrow> event list \<times> app_state" where
  "handleQualityCheck e out s =
     (case getFileToProcess e s of
        Inl err \<Rightarrow> ([], s)
      | Inr None \<Rightarrow> ([], s)
      | Inr (Some fileToProcess) \<Rightarrow>
          let s1 = s\<lparr> isQualityChecking := True, qualityCheckError := None, qualityCheckResult := None \<rparr>;
              run = performQualityCheck e fileToProcess out;
              s2 = (case snd run of
                      Inr result \<Rightarrow> s1\<lparr> qualityCheckResult := Some result \<rparr>
                    | Inl err \<Rightarrow> s1\<lparr> qualityCheckError := Some ''An error occurred during quality check.'' \<rparr>)
          in (fst run, s2\<lparr> isQualityChecking := False \<rparr>))"

text \<open>The progress callback of the analysis is \<open>setAnalysisProgress\<close>.\<close>

fun onProgress :: "event \<Rightarrow> app_state \<Rightarrow> app_state" where
  "onProgress (Progress v) s = s\<lparr> analysisProgress := Some v \<rparr>"
| "onProgress _ s = s"

text \<open>
  \<open>handleAnalyzeClick\<close> (lines 185-209). \<open>localStorage.setItem\<close> is taken to succeed.
\<close>

definition handleAnalyzeClick ::
  "env \<Rightarrow> call_outcome \<Rightarrow> call_outcome \<Rightarrow> app_state \<Rightarrow> event list \<times> app_state" where
  "handleAnalyzeClick e out1 out2 s =
     (case getFileToProcess e s of
        Inl err \<Rightarrow> ([], s)
      | Inr None \<Rightarrow> ([], s)
      | Inr (Some fileToProcess) \<Rightarrow>
          (case image_s s of
             None \<Rightarrow> ([], s)
           | Some im \<Rightarrow>
               let s1 = s\<lparr> isLoading := True, error := None, analysisResult := None,
                          analysisProgress := Some 0 \<rparr>;
                   failed = ''An error occurred during analysis. Please try another image.'';
                   body =
                     (case fileToBase64 e (img_file im) of
                        Inl err \<Rightarrow> ([], s1\<lparr> error := Some failed \<rparr>)
                      | Inr base64Image \<Rightarrow>
                          let imageToSave = image_json base64Image (img_file im);
                              run = analyzeIHCImage e fileToProcess out1 out2;
                              s2 = fold onProgress (fst run) s1
                          in (case snd run of
                                Inl err \<Rightarrow> (fst run, s2\<lparr> error := Some failed \<rparr>)
                              | Inr result \<Rightarrow>
                                  (fst run,
                                   s2\<lparr> analysisResult := Some result,
                                       localStorage :=
                                         (localStorage s2)(''lastAnalysisResult'' \<mapsto> result_json result,
                                                           ''lastAnalysisImage'' \<mapsto> imageToSave) \<rparr>)))
               in (fst body, (snd body)\<lparr> isLoading := False, analysisProgress := None \<rparr>)))"

text \<open>\<open>handleEditClick\<close> (lines 211-226).\<close>

definition handleEditClick :: "env \<Rightarrow> edit_outcome \<Rightarrow> app_state \<Rightarrow> event list \<times> app_state" where
  "handleEditClick e out s =
     (case image_s s of
        None \<Rightarrow> ([], s)
      | Some im \<Rightarrow>
          if prompt s = [] then ([], s)
          else
            let s1 = resetState False (s\<lparr> isLoading := True, error := None \<rparr>);
                run = editImageWithText e (img_file im) (prompt s) out;
                s2 = (case snd run of
                        Inr editedImage \<Rightarrow>
                          s1\<lparr> revokedURLs := revokedURLs s1 @ [img_url im], image_s := Some editedImage \<rparr>
                      | Inl err \<Rightarrow> s1\<lparr> error := Some ''An error occurred during image editing.'' \<rparr>)
            in (fst run, s2\<lparr> isLoading := False \<rparr>))"

text \<open>\<open>getPointFromEvent\<close> (lines 229-234).\<close>

definition getPointFromEvent :: "mouse_event \<Rightarrow> point" where
  "getPointFromEvent ev =
     (let x = js_mul (js_div (js_sub (clientX ev) (rect_left ev)) (rect_width ev)) 100;
          y = js_mul (js_div (js_sub (clientY ev) (rect_top ev)) (rect_height ev)) 100
      in \<lparr> pt_x = max 0 (min 100 x), pt_y = max 0 (min 100 y) \<rparr>)"

text \<open>\<open>handleImageClick\<close> (lines 236-254).\<close>

definition handleImageClick :: "mouse_event \<Rightarrow> app_state \<Rightarrow> app_state" where
  "handleImageClick ev s =
     (if \<not> isDrawing s then s
      else
        let point = getPointFromEvent ev in
        if length (selectionPoints s) > 0 \<and>
           (let firstPoint = selectionPoints s ! 0;
                clickRadius = 2;
                distance = Math_sqrt (js_add (Math_pow (js_sub (pt_x point) (pt_x firstPoint)) 2)
                                             (Math_pow (js_sub (pt_y point) (pt_y firstPoint)) 2))
            in distance < clickRadius)
        then s\<lparr> isDrawing := False, previewPoint := None \<rparr>
        else s\<lparr> selectionPoints := selectionPoints s @ [point] \<rparr>)"

definition handleMouseMove :: "mouse_event \<Rightarrow> app_state \<Rightarrow> app_state" where
  "handleMouseMove ev s =
     (if isDrawing s \<and> length (selectionPoints s) > 0
      then s\<lparr> previewPoint := Some (getPointFromEvent ev) \<rparr>
      else s)"

text \<open>The click handler of \<open>NavButton\<close> (line 407).\<close>

definition navigate :: "Mode \<Rightarrow> app_state \<Rightarrow> app_state" where
  "navigate targetMode s = s\<lparr> mode := targetMode, error := None \<rparr>"

section \<open>App.tsx: what is rendered, and the reachable states\<close>

definition hasSelection :: "app_state \<Rightarrow> bool" where
  "hasSelection s = (length (selectionPoints s) > 0)"

definition isSelectionComplete :: "app_state \<Rightarrow> bool" where
  "isSelectionComplete s = (hasSelection s \<and> \<not> isDrawing s)"

text \<open>
  \<open>renderContent\<close> (lines 292-401) shows the spinner or the error text in place of
  everything else; otherwise the panel of the current mode, which is the uploader while no
  image is loaded.
\<close>

definition panelsShown :: "app_state \<Rightarrow> bool" where
  "panelsShown s = (\<not> (isLoading s \<and> mode s = EDIT \<and> analysisResult s = None) \<and> error s = None)"

definition uploaderShown :: "app_state \<Rightarrow> bool" where
  "uploaderShown s = (panelsShown s \<and> image_s s = None)"

definition previewShown :: "app_state \<Rightarrow> bool" where
  "previewShown s = (panelsShown s \<and> mode s = ANALYSIS \<and> image_s s \<noteq> None)"

definition editorShown :: "app_state \<Rightarrow> bool" where
  "editorShown s = (panelsShown s \<and> mode s = EDIT \<and> image_s s \<noteq> None)"

text \<open>Lines 371 and 373: the two buttons of the analysis workflow.\<close>

definition qualityCheckButtonShown :: "app_state \<Rightarrow> bool" where
  "qualityCheckButtonShown s = (previewShown s \<and> qualityCheckResult s = None)"

definition qualityCheckButtonEnabled :: "app_state \<Rightarrow> bool" where
  "qualityCheckButtonEnabled s =
     (qualityCheckButtonShown s \<and>
      \<not> (isQualityChecking s \<or> image_s s = None \<or> (hasSelection s \<and> isDrawing s)))"

definition analyzeButtonShown :: "app_state \<Rightarrow> bool" where
  "analyzeButtonShown s = (previewShown s \<and> qualityCheckResult s \<noteq> None)"

definition analyzeButtonEnabled :: "app_state \<Rightarrow> bool" where
  "analyzeButtonEnabled s =
     (analyzeButtonShown s \<and> \<not> (isLoading s \<or> (hasSelection s \<and> isDrawing s)))"

text \<open>
  The user's actions, each with what the environment answers during it. A pointer event
  reaches the preview only through its bounding box, which then has a positive width and
  height. Each handler is run to its end as one step: a request that is still in flight
  while another handler runs is not represented.
\<close>

datatype action =
    ImageClick mouse_event
  | MouseMove mouse_event
  | ClearSelection
  | ClearImage
  | ImageUpload File string
  | QualityCheck call_outcome
  | Analyze call_outcome call_outcome
  | Edit edit_outcome
  | SetPrompt string
  | Navigate Mode

fun enabled :: "action \<Rightarrow> app_state \<Rightarrow> bool" where
  "enabled (ImageClick ev) s = (previewShown s \<and> 0 < rect_width ev \<and> 0 < rect_height ev)"
| "enabled (MouseMove ev) s = (previewShown s \<and> 0 < rect_width ev \<and> 0 < rect_height ev)"
| "enabled ClearSelection s = (previewShown s \<and> hasSelection s)"
| "enabled ClearImage s = previewShown s"
| "enabled (ImageUpload f u) s = uploaderShown s"
| "enabled (QualityCheck out) s = qualityCheckButtonEnabled s"
| "enabled (Analyze out1 out2) s = analyzeButtonEnabled s"
| "enabled (Edit out) s = (editorShown s \<and> \<not> (isLoading s \<or> prompt s = []))"
| "enabled (SetPrompt p) s = editorShown s"
| "enabled (Navigate m) s = True"

fun step :: "env \<Rightarrow> action \<Rightarrow> app_state \<Rightarrow> app_state" where
  "step e (ImageClick ev) s = handleImageClick ev s"
| "step e (MouseMove ev) s = handleMouseMove ev s"
| "step e ClearSelection s = clearSelection s"
| "step e ClearImage s = resetState True s"
| "step e (ImageUpload f u) s = handleImageUpload f u s"
| "step e (QualityCheck out) s = snd (handleQualityCheck e out s)"
| "step e (Analyze out1 out2) s = snd (handleAnalyzeClick e out1 out2 s)"
| "step e (Edit out) s = snd (handleEditClick e out s)"
| "step e (SetPrompt p) s = s\<lparr> prompt := p \<rparr>"
| "step e (Navigate m) s = navigate m s"

inductive reachable :: "app_state \<Rightarrow> bool" where
  mounted: "reachable (loadLastSession parsed (initialState store))"
| acted: "reachable s \<Longrightarrow> enabled a s \<Longrightarrow> reachable (step e a s)"

section \<open>Notions of the specification\<close>

text \<open>Rounding to the nearest integer, an exact half going up.\<close>

definition round_half_up :: "real \<Rightarrow> int" where
  "round_half_up v = (if v - of_int \<lfloor>v\<rfloor> < 1 / 2 then \<lfloor>v\<rfloor> else \<lfloor>v\<rfloor> + 1)"

text \<open>The Euclidean distance of two points of the normalized square.\<close>

definition euclidean_distance :: "point \<Rightarrow> point \<Rightarrow> real" where
  "euclidean_distance p q = sqrt ((pt_x p - pt_x q)\<^sup>2 + (pt_y p - pt_y q)\<^sup>2)"

text \<open>
  The same distance as double arithmetic gives it: the two differences, their squares,
  the sum and the square root are each rounded.
\<close>

definition rounded_distance :: "point \<Rightarrow> point \<Rightarrow> real" where
  "rounded_distance p q =
     Math_sqrt (js_add (Math_pow (js_sub (pt_x p) (pt_x q)) 2) (Math_pow (js_sub (pt_y p) (pt_y q)) 2))"

text \<open>A count field of a raw response is missing, or is not a number.\<close>

fun is_number :: "json \<Rightarrow> bool" where
  "is_number (JNum r) = True"
| "is_number _ = False"

definition field_malformed :: "json \<Rightarrow> string \<Rightarrow> bool" where
  "field_malformed j k = (case get_prop j k of None \<Rightarrow> True | Some v \<Rightarrow> \<not> is_number v)"

definition malformed :: "json \<Rightarrow> bool" where
  "malformed j =
     (field_malformed j ''positive_nuclei_count'' \<or>
      field_malformed j ''negative_nuclei_count'' \<or>
      field_malformed j ''total_nuclei_count'')"

text \<open>
  The checkpoints of one analysis in the order the specification gives them: progress 0,
  the first request and its return, progress 50, the second request and its return,
  progress 100.
\<close>

definition checkpoints :: "File \<Rightarrow> event list" where
  "checkpoints f =
     [Progress 0, CallIssued CountNuclei f, CallSettled CountNuclei,
      Progress 50, CallIssued CountNuclei f, CallSettled CountNuclei,
      Progress 100]"

text \<open>The image files that a trace shows being sent to the model.\<close>

fun sent :: "event list \<Rightarrow> File list" where
  "sent [] = []"
| "sent (CallIssued k f # t) = f # sent t"
| "sent (ev # t) = sent t"

text \<open>The progress values that a trace shows being reported.\<close>

fun reported :: "event list \<Rightarrow> real list" where
  "reported [] = []"
| "reported (Progress v # t) = v # reported t"
| "reported (ev # t) = reported t"

text \<open>The image a closed selection of more than two points is cut out of.\<close>

definition masked_image :: "File \<Rightarrow> string \<Rightarrow> File" where
  "masked_image original blob =
     \<lparr> file_name = ''masked_'' @ file_name original, file_type = ''image/png'', file_data = blob \<rparr>"

definition scaled :: "point list \<Rightarrow> point list" where
  "scaled ps = map (\<lambda>p. \<lparr> pt_x = js_div (pt_x p) 100, pt_y = js_div (pt_y p) 100 \<rparr>) ps"

section \<open>Concrete scenarios\<close>

definition host_ok :: env where
  "host_ok = \<lparr> readFile = (\<lambda>f. Inr (file_data f)), rasterize = (\<lambda>f ps. Inr ''PNG'') \<rparr>"

definition slide_a :: File where
  "slide_a = \<lparr> file_name = ''a.jpg'', file_type = ''image/jpeg'', file_data = ''QUFB'' \<rparr>"

definition slide_b :: File where
  "slide_b = \<lparr> file_name = ''b.jpg'', file_type = ''image/jpeg'', file_data = ''QkJC'' \<rparr>"

definition raw :: "real \<Rightarrow> real \<Rightarrow> real \<Rightarrow> json" where
  "raw p n t =
     JObj [(''positive_nuclei_count'', JNum p), (''negative_nuclei_count'', JNum n),
           (''total_nuclei_count'', JNum t)]"

definition click_at :: "real \<Rightarrow> real \<Rightarrow> mouse_event" where
  "click_at cx cy =
     \<lparr> clientX = cx, clientY = cy, rect_left = 0, rect_top = 0, rect_width = 400, rect_height = 200 \<rparr>"

definition quality_ok :: json where
  "quality_ok = JObj [(''is_suitable'', JBool True), (''feedback'', JStr ''Sharp.''), (''issues'', JArr [])]"

text \<open>A first session: an image is loaded, checked and analysed.\<close>

definition loaded :: app_state where
  "loaded = handleImageUpload slide_a ''blob:a'' (initialState Map.empty)"

definition checked :: app_state where
  "checked = snd (handleQualityCheck host_ok (Parsed quality_ok) loaded)"

definition analysed :: app_state where
  "analysed = snd (handleAnalyzeClick host_ok (Parsed (raw 10 5 15)) (Parsed (raw 12 7 19)) checked)"

text \<open>
  The session goes on with an edit that the model refuses, the page is reloaded, and a
  second image is loaded.
\<close>

definition edit_refused :: app_state where
  "edit_refused =
     snd (handleEditClick host_ok EditRejected ((navigate EDIT analysed)\<lparr> prompt := ''sharpen'' \<rparr>))"

definition reloaded :: app_state where
  "reloaded = loadLastSession None (initialState (localStorage edit_refused))"

definition second_image :: app_state where
  "second_image = handleImageUpload slide_b ''blob:b'' reloaded"

text \<open>
  Selections drawn on the loaded image. The preview is 400 by 200 pixels, so a click at
  pixel (50, 25) is the point (12.5, 12.5), without rounding.
\<close>

definition one_point :: app_state where
  "one_point = handleImageClick (click_at 50 25) loaded"

definition one_point_closed :: app_state where
  "one_point_closed = handleImageClick (click_at (225 / 4) 25) one_point"

definition two_points :: app_state where
  "two_points = handleImageClick (click_at 200 100) one_point"

definition closed_triangle :: app_state where
  "closed_triangle =
     handleImageClick (click_at 50 25)
       (handleImageClick (click_at 200 25) two_points)"

definition outside_click :: app_state where
  "outside_click = handleImageClick (click_at 1600 (- 100)) loaded"

text \<open>
  A preview of 500 by 500 pixels: the clicks at pixels 2 and 12 of the top edge are stored
  as the doubles nearest to 0.4 and 2.4.
\<close>

definition click_500 :: "real \<Rightarrow> real \<Rightarrow> mouse_event" where
  "click_500 cx cy =
     \<lparr> clientX = cx, clientY = cy, rect_left = 0, rect_top = 0, rect_width = 500, rect_height = 500 \<rparr>"

definition near_first :: app_state where
  "near_first = handleImageClick (click_500 2 0) loaded"

text \<open>
  On the preview of 400 pixels, the click at pixel 7 is stored as 1.7500000000000002 and
  the click at pixel 15 as 3.75.
\<close>

definition seven_px :: app_state where
  "seven_px = handleImageClick (click_at 7 25) loaded"

text \<open>A raw response whose positive count is a string.\<close>

definition raw_string_count :: json where
  "raw_string_count =
     JObj [(''positive_nuclei_count'', JStr ''12''), (''negative_nuclei_count'', JNum 7),
           (''total_nuclei_count'', JNum 19)]"

section \<open>The invariant of the selection\<close>

text \<open>
  What every handler preserves: a polygon that is no longer being drawn has a point, and
  every stored point lies in the normalized square.
\<close>

definition in_square :: "point \<Rightarrow> bool" where
  "in_square p = (0 \<le> pt_x p \<and> pt_x p \<le> 100 \<and> 0 \<le> pt_y p \<and> pt_y p \<le> 100)"

definition selection_inv :: "app_state \<Rightarrow> bool" where
  "selection_inv s =
     ((isDrawing s \<or> selectionPoints s \<noteq> []) \<and> list_all in_square (selectionPoints s))"

section \<open>Rounding to a double\<close>

lemma pow2_powr: "pow2 k = 2 powr of_int k"
proof (cases "0 \<le> k")
  case True
  then show ?thesis by (simp add: pow2_def powr_realpow [symmetric])
next
  case False
  have "(2::real) powr of_int k = 1 / 2 powr of_int (- k)"
    using powr_minus_divide [of "2::real" "of_int (- k)"] by simp
  also have "(2::real) powr of_int (- k) = (2::real) ^ nat (- k)"
    using False by (simp add: powr_realpow [symmetric])
  finally show ?thesis using False by (simp add: pow2_def)
qed

lemma pow2_pos: "0 < pow2 k"
  by (simp add: pow2_powr)

lemma pow2_add: "pow2 (j + k) = pow2 j * pow2 k"
  by (simp add: pow2_powr powr_add)

lemma round_half_even_int: "round_half_even (of_int i) = i"
  by (simp add: round_half_even_def)

lemma round_half_even_close: "\<bar>of_int (round_half_even v) - v\<bar> \<le> 1 / 2"
  unfolding round_half_even_def Let_def
  by (auto simp: abs_if) linarith+

lemma ulp_between:
  assumes "pow2 k \<le> \<bar>v\<bar>" "\<bar>v\<bar> < pow2 (k + 1)"
  shows "ulp v = pow2 (max k (- 1022) - 52)"
proof -
  have pos: "0 < \<bar>v\<bar>" using assms(1) pow2_pos [of k] by linarith
  have "\<lfloor>log 2 \<bar>v\<bar>\<rfloor> = k"
    using assms pos by (simp add: floor_log_eq_powr_iff pow2_powr)
  then show ?thesis by (simp add: ulp_def)
qed

lemma to_double_between:
  assumes "pow2 k \<le> \<bar>v\<bar>" "\<bar>v\<bar> < pow2 (k + 1)"
  shows "to_double v =
     pow2 (max k (- 1022) - 52) * of_int (round_half_even (v / pow2 (max k (- 1022) - 52)))"
proof -
  have "v \<noteq> 0" using assms(1) pow2_pos [of k] by auto
  then show ?thesis by (simp add: to_double_def ulp_between [OF assms])
qed

lemma floor_log2_int_le:
  assumes "0 < m" "m < 2 ^ 53"
  shows "0 \<le> \<lfloor>log 2 (real_of_int m)\<rfloor>" "\<lfloor>log 2 (real_of_int m)\<rfloor> \<le> 52"
proof -
  have "1 \<le> real_of_int m" using assms(1) by simp
  then have "0 \<le> log 2 (real_of_int m)" by simp
  then show "0 \<le> \<lfloor>log 2 (real_of_int m)\<rfloor>" by simp
  have "real_of_int m < 2 ^ 53" using assms(2) by (metis of_int_less_iff of_int_numeral of_int_power)
  then have "real_of_int m < 2 powr 53" by simp
  then have "log 2 (real_of_int m) < 53"
    using assms(1) by (simp add: log_less_iff)
  then show "\<lfloor>log 2 (real_of_int m)\<rfloor> \<le> 52"
    by (simp add: floor_le_iff) 
qed

lemma to_double_scaled_small:
  assumes "\<bar>m\<bar> < 2 ^ 53" "- 1074 \<le> k"
  shows "to_double (of_int m * pow2 k) = of_int m * pow2 k"
proof (cases "m = 0")
  case True
  then show ?thesis by (simp add: to_double_def)
next
  case False
  define v where "v = real_of_int m * pow2 k"
  define b where "b = \<lfloor>log 2 (real_of_int \<bar>m\<bar>)\<rfloor>"
  have mpos: "0 < \<bar>m\<bar>" using False by simp
  have b: "0 \<le> b" "b \<le> 52"
    using floor_log2_int_le [OF mpos] assms(1) by (simp_all add: b_def)
  have vne: "v \<noteq> 0" using False pow2_pos [of k] by (simp add: v_def)
  have absv: "\<bar>v\<bar> = real_of_int \<bar>m\<bar> * 2 powr of_int k"
    using pow2_pos [of k] by (simp add: v_def abs_mult pow2_powr)
  have "log 2 \<bar>v\<bar> = log 2 (real_of_int \<bar>m\<bar>) + of_int k"
    using mpos by (simp add: absv log_mult)
  then have e: "\<lfloor>log 2 \<bar>v\<bar>\<rfloor> = b + k" by (simp add: b_def)
  define E where "E = max (b + k) (- 1022) - 52"
  have Ek: "E \<le> k" using b assms(2) by (simp add: E_def)
  have u: "ulp v = pow2 E" by (simp add: ulp_def e E_def)
  have split: "pow2 k = pow2 E * pow2 (k - E)"
    using pow2_add [of E "k - E"] by simp
  have int: "pow2 (k - E) = of_int (2 ^ nat (k - E))"
    using Ek by (simp add: pow2_def)
  have "v / pow2 E = of_int (m * 2 ^ nat (k - E))"
    using pow2_pos [of E] by (simp add: v_def split int)
  then have "v / ulp v = of_int (m * 2 ^ nat (k - E))"
    by (simp only: u)
  then have "to_double v = pow2 E * of_int (m * 2 ^ nat (k - E))"
    using vne by (simp add: to_double_def u round_half_even_int del: of_int_mult of_int_power)
  also have "\<dots> = v" by (simp add: v_def split int)
  finally show ?thesis by (simp add: v_def)
qed

lemma to_double_scaled:
  assumes "\<bar>m\<bar> \<le> 2 ^ 53" "- 1074 \<le> k"
  shows "to_double (of_int m * pow2 k) = of_int m * pow2 k"
proof (cases "\<bar>m\<bar> < 2 ^ 53")
  case True
  then show ?thesis using assms(2) by (rule to_double_scaled_small)
next
  case False
  with assms(1) have m: "\<bar>m\<bar> = 2 ^ 53" by simp
  then consider "m = 2 ^ 53" | "m = - (2 ^ 53)" by (cases "0 \<le> m") simp_all
  then have "m = 2 * (m div 2) \<and> \<bar>m div 2\<bar> < 2 ^ 53" by cases simp_all
  then have "m = 2 * (m div 2)" and "\<bar>m div 2\<bar> < 2 ^ 53" by simp_all
  then have "to_double (of_int (m div 2) * pow2 (k + 1)) = of_int (m div 2) * pow2 (k + 1)"
    using assms(2) by (intro to_double_scaled_small) simp_all
  moreover have "of_int m * pow2 k = of_int (m div 2) * pow2 (k + 1)"
  proof -
    have "real_of_int m = 2 * real_of_int (m div 2)"
      using \<open>m = 2 * (m div 2)\<close> by (metis of_int_mult of_int_numeral)
    moreover have "pow2 1 = 2" by (simp add: pow2_def)
    then have "pow2 (k + 1) = pow2 k * 2" using pow2_add [of k 1] by simp
    ultimately show ?thesis by simp
  qed
  ultimately show ?thesis by simp
qed

lemma to_double_int:
  assumes "\<bar>m\<bar> \<le> 2 ^ 53"
  shows "to_double (of_int m) = of_int m"
  using to_double_scaled [OF assms, of 0] by (simp add: pow2_def)

lemma to_double_half_int:
  assumes "\<bar>m\<bar> \<le> 2 ^ 53"
  shows "to_double (of_int m / 2) = of_int m / 2"
  using to_double_scaled [OF assms, of "- 1"] by (simp add: pow2_def)

lemma to_double_error:
  "\<bar>to_double v - v\<bar> \<le> \<bar>v\<bar> / 2 ^ 53 + 1 / 2 ^ 1075"
proof (cases "v = 0")
  case True
  then show ?thesis by (simp add: to_double_def)
next
  case False
  define e where "e = \<lfloor>log 2 \<bar>v\<bar>\<rfloor>"
  have "to_double v - v = ulp v * (of_int (round_half_even (v / ulp v)) - v / ulp v)"
    using False pow2_pos [of "max e (- 1022) - 52"]
    by (simp add: to_double_def ulp_def e_def algebra_simps)
  then have "\<bar>to_double v - v\<bar> = ulp v * \<bar>of_int (round_half_even (v / ulp v)) - v / ulp v\<bar>"
    using pow2_pos [of "max e (- 1022) - 52"] by (simp add: abs_mult ulp_def e_def)
  also have "\<dots> \<le> ulp v * (1 / 2)"
    using round_half_even_close [of "v / ulp v"] pow2_pos [of "max e (- 1022) - 52"]
    by (intro mult_left_mono) (simp_all add: ulp_def e_def)
  finally have half: "\<bar>to_double v - v\<bar> \<le> ulp v / 2" by simp
  show ?thesis
  proof (cases "- 1022 \<le> e")
    case True
    have "2 powr of_int e \<le> \<bar>v\<bar>"
      using False floor_log_eq_powr_iff [of "\<bar>v\<bar>" 2 e] by (simp add: e_def)
    then have "pow2 e \<le> \<bar>v\<bar>" by (simp add: pow2_powr)
    moreover have "ulp v = pow2 (max e (- 1022) - 52)" by (simp add: ulp_def e_def)
    with True have "ulp v = pow2 e * pow2 (- 52)"
      using pow2_add [of e "- 52"] by (simp add: max_def)
    ultimately have "ulp v \<le> \<bar>v\<bar> * pow2 (- 52)"
      using pow2_pos [of "- 52"] by simp
    then have "ulp v / 2 \<le> \<bar>v\<bar> / 2 ^ 53" by (simp add: pow2_def)
    moreover have "(0::real) \<le> 1 / 2 ^ 1075" by simp
    ultimately show ?thesis using half by linarith
  next
    case False
    have "ulp v = pow2 (max e (- 1022) - 52)" by (simp add: ulp_def e_def)
    with False have "ulp v = pow2 (- 1074)" by (simp add: max_def)
    then have "ulp v / 2 = 1 / 2 ^ 1075" by (simp add: pow2_def)
    moreover have "0 \<le> \<bar>v\<bar> / 2 ^ 53" by simp
    ultimately show ?thesis using half by linarith
  qed
qed

lemma round_half_even_nonneg: "0 \<le> v \<Longrightarrow> 0 \<le> round_half_even v"
  by (auto simp: round_half_even_def Let_def)

lemma to_double_nonneg: "0 \<le> v \<Longrightarrow> 0 \<le> to_double v"
  using pow2_pos [of "max \<lfloor>log 2 \<bar>v\<bar>\<rfloor> (- 1022) - 52"]
  by (simp add: to_double_def ulp_def round_half_even_nonneg)

text \<open>Rounding never crosses a power of two.\<close>

lemma round_half_even_bounded:
  assumes "\<bar>v\<bar> \<le> of_int n"
  shows "\<bar>round_half_even v\<bar> \<le> n"
proof -
  from assms have up: "v \<le> of_int n" and low: "of_int (- n) \<le> v" by (simp_all add: abs_le_iff)
  from up have f: "\<lfloor>v\<rfloor> \<le> n" by (simp add: floor_le_iff)
  from low have g: "- n \<le> \<lfloor>v\<rfloor>" by (simp add: le_floor_iff)
  have "round_half_even v \<le> n"
  proof (cases "\<lfloor>v\<rfloor> = n")
    case True
    with up have "v - of_int \<lfloor>v\<rfloor> \<le> 0" by simp
    then show ?thesis using True by (simp add: round_half_even_def Let_def)
  next
    case False
    with f have "\<lfloor>v\<rfloor> + 1 \<le> n" by simp
    then show ?thesis using f by (simp add: round_half_even_def Let_def)
  qed
  moreover have "- n \<le> round_half_even v"
    using g by (simp add: round_half_even_def Let_def)
  ultimately show ?thesis by (simp add: abs_le_iff)
qed

lemma to_double_bounded:
  assumes "\<bar>v\<bar> \<le> 2 ^ n"
  shows "\<bar>to_double v\<bar> \<le> 2 ^ n"
proof (cases "v = 0")
  case True
  then show ?thesis by (simp add: to_double_def)
next
  case False
  define E where "E = max \<lfloor>log 2 \<bar>v\<bar>\<rfloor> (- 1022)"
  have "log 2 \<bar>v\<bar> \<le> log 2 (2 ^ n)" using assms False by (simp del: log_pow_cancel)
  then have "log 2 \<bar>v\<bar> \<le> of_nat n" by simp
  then have "\<lfloor>log 2 \<bar>v\<bar>\<rfloor> \<le> int n" by (simp add: floor_le_iff)
  then have En: "E \<le> int n" by (simp add: E_def)
  have u: "ulp v = pow2 (E - 52)" by (simp add: ulp_def E_def)
  define N :: int where "N = 2 ^ nat (int n - (E - 52))"
  have split: "pow2 (int n) = pow2 (E - 52) * pow2 (int n - (E - 52))"
    using pow2_add [of "E - 52" "int n - (E - 52)"] by simp
  have pn: "pow2 (int n) = 2 ^ n" by (simp add: pow2_def)
  have pN: "pow2 (int n - (E - 52)) = of_int N" using En by (simp add: pow2_def N_def)
  have "\<bar>v / pow2 (E - 52)\<bar> = \<bar>v\<bar> / pow2 (E - 52)"
    using pow2_pos [of "E - 52"] by simp
  also have "\<dots> \<le> 2 ^ n / pow2 (E - 52)"
    using assms pow2_pos [of "E - 52"] by (simp add: divide_right_mono)
  also have "\<dots> = of_int N"
    using pow2_pos [of "E - 52"] split pn pN by simp
  finally have "\<bar>round_half_even (v / pow2 (E - 52))\<bar> \<le> N" by (rule round_half_even_bounded)
  then have "\<bar>real_of_int (round_half_even (v / pow2 (E - 52)))\<bar> \<le> of_int N"
    by (metis of_int_abs of_int_le_iff)
  then have "pow2 (E - 52) * \<bar>real_of_int (round_half_even (v / pow2 (E - 52)))\<bar> \<le> pow2 (E - 52) * of_int N"
    using pow2_pos [of "E - 52"] by (intro mult_left_mono) simp_all
  also have "\<dots> = 2 ^ n" using split pn pN by simp
  finally show ?thesis
    using False pow2_pos [of "E - 52"] by (simp add: to_double_def u abs_mult)
qed

lemma to_double_error_small:
  assumes "\<bar>v\<bar> \<le> 2 ^ 15"
  shows "\<bar>to_double v - v\<bar> \<le> 1 / 2 ^ 37"
proof -
  have "\<bar>v\<bar> / 2 ^ 53 \<le> 2 ^ 15 / 2 ^ 53" using assms by (simp add: divide_right_mono)
  moreover have "(1::real) / 2 ^ 1075 \<le> 1 / 2 ^ 38" by (simp add: field_simps power_increasing) 
  ultimately have "\<bar>v\<bar> / 2 ^ 53 + 1 / 2 ^ 1075 \<le> 1 / 2 ^ 37" by simp
  with to_double_error [of v] show ?thesis by linarith
qed

lemma squared_difference_error:
  assumes "0 \<le> a" "a \<le> 100" "0 \<le> b" "b \<le> 100"
  shows "\<bar>Math_pow (js_sub a b) 2 - (a - b)\<^sup>2\<bar> \<le> 202 / 2 ^ 37"
    and "0 \<le> Math_pow (js_sub a b) 2"
    and "Math_pow (js_sub a b) 2 \<le> 10001"
proof -
  define t where "t = a - b"
  define d where "d = to_double t"
  have t: "\<bar>t\<bar> \<le> 100" using assms by (simp add: t_def abs_if)
  then have "\<bar>t\<bar> \<le> 2 ^ 15" by simp
  then have e1: "\<bar>d - t\<bar> \<le> 1 / 2 ^ 37" unfolding d_def by (rule to_double_error_small)
  then have dt: "\<bar>d + t\<bar> \<le> 201" using t by (simp add: abs_if split: if_splits)
  from e1 t have dabs: "\<bar>d\<bar> \<le> 101" by (simp add: abs_if split: if_splits)
  have "\<bar>d\<^sup>2 - t\<^sup>2\<bar> = \<bar>d - t\<bar> * \<bar>d + t\<bar>"
    by (simp add: abs_mult [symmetric] power2_eq_square algebra_simps)
  also have "\<dots> \<le> 1 / 2 ^ 37 * 201"
    using e1 dt by (intro mult_mono) simp_all
  finally have e2: "\<bar>d\<^sup>2 - t\<^sup>2\<bar> \<le> 201 / 2 ^ 37" by simp
  have "d\<^sup>2 = \<bar>d\<bar> * \<bar>d\<bar>" by (simp add: power2_eq_square abs_mult [symmetric])
  also have "\<dots> \<le> 101 * 101" using dabs by (intro mult_mono) simp_all
  finally have d2: "d\<^sup>2 \<le> 10201" by simp
  then have "\<bar>d\<^sup>2\<bar> \<le> 2 ^ 15" by simp
  then have e3: "\<bar>to_double (d\<^sup>2) - d\<^sup>2\<bar> \<le> 1 / 2 ^ 37" by (rule to_double_error_small)
  have eq: "Math_pow (js_sub a b) 2 = to_double (d\<^sup>2)"
    by (simp add: Math_pow_def js_sub_def d_def t_def)
  from e2 e3 show "\<bar>Math_pow (js_sub a b) 2 - (a - b)\<^sup>2\<bar> \<le> 202 / 2 ^ 37"
    unfolding eq t_def [symmetric] by (simp add: abs_if split: if_splits)
  show "0 \<le> Math_pow (js_sub a b) 2"
    unfolding eq by (rule to_double_nonneg) simp
  have "t\<^sup>2 = \<bar>t\<bar> * \<bar>t\<bar>" by (simp add: power2_eq_square abs_mult [symmetric])
  also have "\<dots> \<le> 100 * 100" using t by (intro mult_mono) simp_all
  finally have "t\<^sup>2 \<le> 10000" by simp
  with e2 e3 show "Math_pow (js_sub a b) 2 \<le> 10001"
    unfolding eq by (simp add: abs_if split: if_splits)
qed

lemma to_double_zero: "to_double 0 = 0"
  by (simp add: to_double_def)

lemma to_double_of_nat:
  assumes "n \<le> 2 ^ 53"
  shows "to_double (of_nat n) = of_nat n"
proof -
  have "\<bar>int n\<bar> \<le> 2 ^ 53" using assms by (simp add: of_nat_le_iff [of n "2 ^ 53", where ?'a = int, simplified])
  from to_double_int [OF this] show ?thesis by simp
qed

lemma to_double_half_of_nat:
  assumes "n \<le> 2 ^ 53"
  shows "to_double (of_nat n / 2) = of_nat n / 2"
proof -
  have "\<bar>int n\<bar> \<le> 2 ^ 53" using assms by (simp add: of_nat_le_iff [of n "2 ^ 53", where ?'a = int, simplified])
  from to_double_half_int [OF this] show ?thesis by simp
qed

lemma to_double_numeral:
  assumes "(numeral w :: int) \<le> 2 ^ 53"
  shows "to_double (numeral w) = numeral w"
  using to_double_int [of "numeral w"] assms by simp

lemma to_double_one: "to_double 1 = 1"
  using to_double_int [of 1] by simp

lemma to_double_half_numeral:
  assumes "(numeral w :: int) \<le> 2 ^ 53"
  shows "to_double (numeral w / 2) = numeral w / 2"
  using to_double_half_int [of "numeral w"] assms by simp

lemmas exact_doubles = to_double_zero to_double_one to_double_numeral to_double_half_numeral

section \<open>The analysis service: helper facts\<close>

lemma Math_round_half_up: "Math_round v = of_int (round_half_up v)"
proof (cases "v - of_int \<lfloor>v\<rfloor> < 1 / 2")
  case True
  then have "\<lfloor>v + 1 / 2\<rfloor> = \<lfloor>v\<rfloor>" by (simp add: floor_eq_iff) linarith
  with True show ?thesis by (simp add: Math_round_def round_half_up_def)
next
  case False
  then have "\<lfloor>v + 1 / 2\<rfloor> = \<lfloor>v\<rfloor> + 1" by (simp add: floor_eq_iff) linarith
  with False show ?thesis by (simp add: Math_round_def round_half_up_def)
qed

lemma analyze_ok:
  assumes "fileToBase64 e f = Inr b" "runSingleAnalysis out1 = Inr r1" "runSingleAnalysis out2 = Inr r2"
  shows "analyzeIHCImage e f out1 out2 =
      (checkpoints f,
       Inr \<lparr> positive_nuclei_count =
               Math_round (js_div (js_add (positive_nuclei_count r1) (positive_nuclei_count r2)) 2),
             negative_nuclei_count =
               Math_round (js_div (js_add (negative_nuclei_count r1) (negative_nuclei_count r2)) 2),
             total_nuclei_count =
               js_add (Math_round (js_div (js_add (positive_nuclei_count r1) (positive_nuclei_count r2)) 2))
                      (Math_round (js_div (js_add (negative_nuclei_count r1) (negative_nuclei_count r2)) 2)) \<rparr>)"
  using assms by (simp add: analyzeIHCImage_def checkpoints_def Let_def)

lemma run_raw:
  "runSingleAnalysis (Parsed (raw p n t)) =
     Inr \<lparr> positive_nuclei_count = p, negative_nuclei_count = n, total_nuclei_count = t \<rparr>"
  by (simp add: runSingleAnalysis_def raw_def)

lemma read_ok: "fileToBase64 host_ok f = Inr (file_data f)"
  by (simp add: fileToBase64_def host_ok_def)

text \<open>
  The first session analyses with the responses (10, 5, 15) and (12, 7, 19): every
  intermediate value is a small integer and no operation rounds.
\<close>

lemma first_analysis:
  "analyzeIHCImage host_ok f (Parsed (raw 10 5 15)) (Parsed (raw 12 7 19)) =
     (checkpoints f,
      Inr \<lparr> positive_nuclei_count = 11, negative_nuclei_count = 6, total_nuclei_count = 17 \<rparr>)"
  by (simp add: analyze_ok [OF read_ok run_raw run_raw] js_add_def js_div_def Math_round_def
      exact_doubles)

text \<open>The average of two naturals whose sum a double holds exactly.\<close>

lemma average_of_naturals:
  assumes "p + q \<le> 2 ^ 53"
  shows "Math_round (js_div (js_add (of_nat p) (of_nat q)) 2) =
           of_int (round_half_up ((of_nat p + of_nat q) / 2))"
    and "0 \<le> round_half_up ((of_nat p + of_nat q) / 2)"
    and "round_half_up ((of_nat p + of_nat q) / 2) \<le> 2 ^ 52"
proof -
  have "js_add (of_nat p) (of_nat q) = of_nat (p + q)"
    using to_double_of_nat [OF assms] by (simp add: js_add_def)
  then have d: "js_div (js_add (of_nat p) (of_nat q)) 2 = (of_nat p + of_nat q) / 2"
    using to_double_half_of_nat [OF assms] by (simp add: js_div_def)
  show "Math_round (js_div (js_add (of_nat p) (of_nat q)) 2) =
           of_int (round_half_up ((of_nat p + of_nat q) / 2))"
    by (simp only: d Math_round_half_up)
  have *: "round_half_up v = \<lfloor>v + 1 / 2\<rfloor>" for v
    using Math_round_half_up [of v] by (simp add: Math_round_def)
  show "0 \<le> round_half_up ((of_nat p + of_nat q) / 2)"
    unfolding * by simp
  have "real (p + q) \<le> 2 ^ 53" using assms by (metis of_nat_le_iff of_nat_numeral of_nat_power)
  then have "(real p + real q) / 2 + 1 / 2 < 2 ^ 52 + 1" by (simp add: field_simps)
  then have "\<lfloor>(real p + real q) / 2 + 1 / 2\<rfloor> < 2 ^ 52 + 1"
    by (simp add: floor_less_iff)
  then show "round_half_up ((of_nat p + of_nat q) / 2) \<le> 2 ^ 52"
    unfolding * by simp
qed

section \<open>Two-pass aggregation\<close>

text \<open>
  C1, as stated, fails. The sum of the two raw counts is a double: 9007199254740992 and 1
  add up to 9007199254740992, so the aggregate is 4503599627370496, while the average
  4503599627370496.5 rounded half up is 4503599627370497.
\<close>

text \<open>The average of two counts of magnitude up to \<open>2^52\<close> is an integer of that range.\<close>

lemma average_bounded:
  assumes "\<bar>a\<bar> \<le> 2 ^ 52" "\<bar>b\<bar> \<le> 2 ^ 52"
  shows "\<exists>i. Math_round (js_div (js_add a b) 2) = of_int i \<and> \<bar>i\<bar> \<le> 2 ^ 52"
proof -
  have "\<bar>a + b\<bar> \<le> 2 ^ 53" using assms by (simp add: abs_if split: if_splits)
  then have "\<bar>js_add a b\<bar> \<le> 2 ^ 53" unfolding js_add_def by (rule to_double_bounded)
  then have "\<bar>js_add a b / 2\<bar> \<le> 2 ^ 52" by simp
  then have h: "\<bar>js_div (js_add a b) 2\<bar> \<le> 2 ^ 52" unfolding js_div_def by (rule to_double_bounded)
  define y where "y = js_div (js_add a b) 2"
  define K :: int where "K = 2 ^ 52"
  have K: "real_of_int K = 2 ^ 52" by (simp add: K_def)
  from h have "y + 1 / 2 < of_int K + 1" and "of_int (- K) \<le> y + 1 / 2"
    by (simp_all add: y_def abs_le_iff K)
  then have "\<lfloor>y + 1 / 2\<rfloor> \<le> K" and "- K \<le> \<lfloor>y + 1 / 2\<rfloor>"
    by (simp_all only: floor_le_iff le_floor_iff)
  then have "\<bar>\<lfloor>y + 1 / 2\<rfloor>\<bar> \<le> K" by linarith
  then have "\<bar>\<lfloor>y + 1 / 2\<rfloor>\<bar> \<le> 2 ^ 52" by (simp only: K_def)
  then show ?thesis by (auto simp: Math_round_def y_def)
qed

theorem aggregate_rounds_half_up_counterexample:
  "snd (analyzeIHCImage host_ok slide_a (Parsed (raw 9007199254740992 0 0)) (Parsed (raw 1 0 0))) =
     Inr \<lparr> positive_nuclei_count = 4503599627370496, negative_nuclei_count = 0,
           total_nuclei_count = 4503599627370496 \<rparr>
   \<and> round_half_up ((9007199254740992 + 1) / 2) = 4503599627370497"
proof -
  have "to_double 9007199254740993 = 9007199254740992"
    using to_double_between [of 53 9007199254740993]
    by (simp add: round_half_even_def pow2_def)
  then show ?thesis
    by (simp add: analyze_ok [OF read_ok run_raw run_raw] js_add_def js_div_def Math_round_def
        exact_doubles round_half_up_def)
qed

text \<open>
  C1, amended. When both passes return counts that are natural numbers, and neither the
  two positive counts nor the two negative counts add up to more than \<open>2^53\<close>, the
  aggregate holds, for the positive and for the negative count, the average of the two
  raw counts rounded to the nearest integer with an exact half going up, and their sum as
  the total. The scenario of the specification (10 and 12 positive, 5 and 7 negative)
  gives 11, 6 and 17; 3 and 4 positive give 4.
\<close>

theorem aggregate_rounds_half_up:
  assumes "fileToBase64 e f = Inr b"
    and "runSingleAnalysis out1 = Inr r1" and "runSingleAnalysis out2 = Inr r2"
    and "positive_nuclei_count r1 = of_nat p1" and "negative_nuclei_count r1 = of_nat n1"
    and "positive_nuclei_count r2 = of_nat p2" and "negative_nuclei_count r2 = of_nat n2"
    and "p1 + p2 \<le> 2 ^ 53" and "n1 + n2 \<le> 2 ^ 53"
  shows "snd (analyzeIHCImage e f out1 out2) =
      Inr \<lparr> positive_nuclei_count = of_int (round_half_up ((of_nat p1 + of_nat p2) / 2)),
            negative_nuclei_count = of_int (round_half_up ((of_nat n1 + of_nat n2) / 2)),
            total_nuclei_count = of_int (round_half_up ((of_nat p1 + of_nat p2) / 2))
                               + of_int (round_half_up ((of_nat n1 + of_nat n2) / 2)) \<rparr>"
proof -
  note p = average_of_naturals [OF assms(8)]
  note n = average_of_naturals [OF assms(9)]
  have "\<bar>round_half_up ((of_nat p1 + of_nat p2) / 2) + round_half_up ((of_nat n1 + of_nat n2) / 2)\<bar>
          \<le> 2 ^ 53"
    using p(2,3) n(2,3) by simp
  from to_double_int [OF this]
  have "js_add (of_int (round_half_up ((of_nat p1 + of_nat p2) / 2)))
               (of_int (round_half_up ((of_nat n1 + of_nat n2) / 2))) =
        of_int (round_half_up ((of_nat p1 + of_nat p2) / 2))
          + of_int (round_half_up ((of_nat n1 + of_nat n2) / 2))"
    by (simp add: js_add_def)
  with assms(1-7) show ?thesis
    by (simp add: analyze_ok p(1) n(1))
qed

theorem aggregate_rounds_half_up_witness:
  "snd (analyzeIHCImage host_ok slide_a (Parsed (raw 10 5 15)) (Parsed (raw 12 7 19))) =
     Inr \<lparr> positive_nuclei_count = 11, negative_nuclei_count = 6, total_nuclei_count = 17 \<rparr>
   \<and> snd (analyzeIHCImage host_ok slide_a (Parsed (raw 3 8 11)) (Parsed (raw 4 8 12))) =
     Inr \<lparr> positive_nuclei_count = 4, negative_nuclei_count = 8, total_nuclei_count = 12 \<rparr>"
  using aggregate_rounds_half_up [of host_ok slide_a "file_data slide_a"
          "Parsed (raw 10 5 15)" _ "Parsed (raw 12 7 19)" _ 10 5 12 7]
    aggregate_rounds_half_up [of host_ok slide_a "file_data slide_a"
          "Parsed (raw 3 8 11)" _ "Parsed (raw 4 8 12)" _ 3 8 4 8]
  by (simp add: run_raw read_ok round_half_up_def)

text \<open>
  C5, as stated, fails. The total is the double sum of the two averaged counts: when both
  passes return 9007199254740992 positive and 1 negative, the aggregate has these two
  counts and the total 9007199254740992, one less than their sum.
\<close>

theorem aggregate_total_consistent_counterexample:
  "snd (analyzeIHCImage host_ok slide_a (Parsed (raw 9007199254740992 1 0))
          (Parsed (raw 9007199254740992 1 0))) =
     Inr \<lparr> positive_nuclei_count = 9007199254740992, negative_nuclei_count = 1,
           total_nuclei_count = 9007199254740992 \<rparr>
   \<and> total_nuclei_count \<lparr> positive_nuclei_count = 9007199254740992, negative_nuclei_count = 1,
                           total_nuclei_count = 9007199254740992 \<rparr>
     \<noteq> positive_nuclei_count \<lparr> positive_nuclei_count = 9007199254740992, negative_nuclei_count = 1,
                                 total_nuclei_count = 9007199254740992 \<rparr>
       + negative_nuclei_count \<lparr> positive_nuclei_count = 9007199254740992, negative_nuclei_count = 1,
                                   total_nuclei_count = 9007199254740992::real \<rparr>"
proof -
  have "to_double 9007199254740993 = 9007199254740992"
    using to_double_between [of 53 9007199254740993]
    by (simp add: round_half_even_def pow2_def)
  moreover have "to_double 18014398509481984 = 18014398509481984"
    using to_double_scaled [of 9007199254740992 1] by (simp add: pow2_def)
  ultimately show ?thesis
    by (simp add: analyze_ok [OF read_ok run_raw run_raw] js_add_def js_div_def Math_round_def
        exact_doubles)
qed

text \<open>
  C5, amended. When the positive and negative counts that the two passes return do not
  exceed \<open>2^52\<close> in magnitude, the result that the analysis produces has a total equal
  to its positive count plus its negative count, whatever totals the passes returned: the
  totals of the raw results are read for validation only.
\<close>

theorem aggregate_total_consistent:
  assumes "runSingleAnalysis out1 = Inr r1" and "runSingleAnalysis out2 = Inr r2"
    and "snd (analyzeIHCImage e f out1 out2) = Inr r"
    and "\<bar>positive_nuclei_count r1\<bar> \<le> 2 ^ 52" and "\<bar>negative_nuclei_count r1\<bar> \<le> 2 ^ 52"
    and "\<bar>positive_nuclei_count r2\<bar> \<le> 2 ^ 52" and "\<bar>negative_nuclei_count r2\<bar> \<le> 2 ^ 52"
  shows "total_nuclei_count r = positive_nuclei_count r + negative_nuclei_count r"
proof -
  from average_bounded [OF assms(4,6)] obtain i
    where i: "Math_round (js_div (js_add (positive_nuclei_count r1) (positive_nuclei_count r2)) 2) = of_int i"
      "\<bar>i\<bar> \<le> 2 ^ 52" by blast
  from average_bounded [OF assms(5,7)] obtain j
    where j: "Math_round (js_div (js_add (negative_nuclei_count r1) (negative_nuclei_count r2)) 2) = of_int j"
      "\<bar>j\<bar> \<le> 2 ^ 52" by blast
  from i(2) j(2) have "\<bar>i + j\<bar> \<le> 2 ^ 53" by simp
  from to_double_int [OF this] have sum: "js_add (of_int i) (of_int j) = of_int i + of_int j"
    by (simp add: js_add_def)
  from assms(1-3) have "r = \<lparr> positive_nuclei_count = of_int i, negative_nuclei_count = of_int j,
       total_nuclei_count = js_add (of_int i) (of_int j) \<rparr>"
    by (cases "fileToBase64 e f") (simp_all add: analyzeIHCImage_def Let_def i(1) j(1))
  with sum show ?thesis by simp
qed

theorem aggregate_total_consistent_witness:
  "snd (analyzeIHCImage host_ok slide_a (Parsed (raw 10 5 99)) (Parsed (raw 12 7 0))) =
     Inr \<lparr> positive_nuclei_count = 11, negative_nuclei_count = 6, total_nuclei_count = 17 \<rparr>
   \<and> total_nuclei_count \<lparr> positive_nuclei_count = 11, negative_nuclei_count = 6, total_nuclei_count = 17 \<rparr>
     = positive_nuclei_count \<lparr> positive_nuclei_count = 11, negative_nuclei_count = 6, total_nuclei_count = 17 \<rparr>
     + negative_nuclei_count \<lparr> positive_nuclei_count = 11, negative_nuclei_count = 6, total_nuclei_count = 17::real \<rparr>"
proof -
  have run: "snd (analyzeIHCImage host_ok slide_a (Parsed (raw 10 5 99)) (Parsed (raw 12 7 0))) =
     Inr \<lparr> positive_nuclei_count = 11, negative_nuclei_count = 6, total_nuclei_count = 17 \<rparr>"
    by (simp add: analyze_ok [OF read_ok run_raw run_raw] js_add_def js_div_def Math_round_def
        exact_doubles)
  from run aggregate_total_consistent [OF run_raw run_raw run] show ?thesis by simp
qed

text \<open>
  C6. The effects of one analysis are, in this order, an initial part of: progress 0, the
  first request and its return, progress 50, the second request and its return, progress
  100. Progress 0 is always reported first, the second request is never issued before the
  first has returned, and a run that produces a result shows the whole sequence, with
  exactly the progress values 0, 50, 100. A pass that fails ends the sequence where it
  stands.
\<close>

theorem analysis_checkpoints_in_order:
  "prefix (fst (analyzeIHCImage e f out1 out2)) (checkpoints f)
   \<and> take 1 (fst (analyzeIHCImage e f out1 out2)) = [Progress 0]
   \<and> prefix (reported (fst (analyzeIHCImage e f out1 out2))) [0, 50, 100]
   \<and> (\<forall>r. snd (analyzeIHCImage e f out1 out2) = Inr r \<longrightarrow>
          fst (analyzeIHCImage e f out1 out2) = checkpoints f
          \<and> reported (fst (analyzeIHCImage e f out1 out2)) = [0, 50, 100])"
  by (auto simp: analyzeIHCImage_def checkpoints_def Let_def split: sum.splits)

theorem analysis_checkpoints_in_order_witness:
  "fst (analyzeIHCImage host_ok slide_a (Parsed (raw 10 5 15)) (Parsed (raw 12 7 19))) =
     [Progress 0, CallIssued CountNuclei slide_a, CallSettled CountNuclei,
      Progress 50, CallIssued CountNuclei slide_a, CallSettled CountNuclei,
      Progress 100]
   \<and> reported (fst (analyzeIHCImage host_ok slide_a (Parsed (raw 10 5 15)) (Parsed (raw 12 7 19)))) =
     [0, 50, 100]
   \<and> prefix (fst (analyzeIHCImage host_ok slide_a (Parsed (raw 10 5 15)) CallRejected))
        (checkpoints slide_a)"
proof -
  have run: "snd (analyzeIHCImage host_ok slide_a (Parsed (raw 10 5 15)) (Parsed (raw 12 7 19))) =
     Inr \<lparr> positive_nuclei_count = 11, negative_nuclei_count = 6, total_nuclei_count = 17 \<rparr>"
    by (simp add: first_analysis)
  from analysis_checkpoints_in_order [of host_ok slide_a "Parsed (raw 10 5 15)" "Parsed (raw 12 7 19)"] run
  have "fst (analyzeIHCImage host_ok slide_a (Parsed (raw 10 5 15)) (Parsed (raw 12 7 19))) =
          checkpoints slide_a
        \<and> reported (fst (analyzeIHCImage host_ok slide_a (Parsed (raw 10 5 15)) (Parsed (raw 12 7 19)))) =
          [0, 50, 100]"
    by blast
  moreover
  from analysis_checkpoints_in_order [of host_ok slide_a "Parsed (raw 10 5 15)" CallRejected]
  have "prefix (fst (analyzeIHCImage host_ok slide_a (Parsed (raw 10 5 15)) CallRejected))
          (checkpoints slide_a)"
    by blast
  ultimately show ?thesis by (simp add: checkpoints_def)
qed

section \<open>Failure of a pass\<close>

lemma fold_onProgress_same:
  "localStorage (fold onProgress t s) = localStorage s"
  "analysisResult (fold onProgress t s) = analysisResult s"
  "error (fold onProgress t s) = error s"
  "isLoading (fold onProgress t s) = isLoading s"
  "selectionPoints (fold onProgress t s) = selectionPoints s"
  "isDrawing (fold onProgress t s) = isDrawing s"
proof (induction t arbitrary: s)
  case Nil
  { case 1 show ?case by simp next
    case 2 show ?case by simp next
    case 3 show ?case by simp next
    case 4 show ?case by simp next
    case 5 show ?case by simp next
    case 6 show ?case by simp }
next
  case (Cons ev t)
  { case 1 show ?case by (cases ev) (simp_all add: Cons.IH) next
    case 2 show ?case by (cases ev) (simp_all add: Cons.IH) next
    case 3 show ?case by (cases ev) (simp_all add: Cons.IH) next
    case 4 show ?case by (cases ev) (simp_all add: Cons.IH) next
    case 5 show ?case by (cases ev) (simp_all add: Cons.IH) next
    case 6 show ?case by (cases ev) (simp_all add: Cons.IH) }
qed

lemma analyze_fails:
  assumes "isl (runSingleAnalysis out1) \<or> isl (runSingleAnalysis out2)"
  shows "isl (snd (analyzeIHCImage e f out1 out2))"
  using assms
  by (auto simp: analyzeIHCImage_def Let_def split: sum.splits)

lemma analyze_click_failed:
  assumes "image_s s = Some im" "getFileToProcess e s = Inr (Some f)"
    "isl (snd (analyzeIHCImage e f out1 out2))"
  shows "localStorage (snd (handleAnalyzeClick e out1 out2 s)) = localStorage s"
    and "error (snd (handleAnalyzeClick e out1 out2 s)) =
           Some ''An error occurred during analysis. Please try another image.''"
    and "analysisResult (snd (handleAnalyzeClick e out1 out2 s)) = None"
  using assms
  by (cases "snd (analyzeIHCImage e f out1 out2)";
      simp add: handleAnalyzeClick_def Let_def fold_onProgress_same split: sum.splits)+

lemma analyze_click_store_on_failure:
  assumes "isl (runSingleAnalysis out1) \<or> isl (runSingleAnalysis out2)"
  shows "localStorage (snd (handleAnalyzeClick e out1 out2 s)) = localStorage s"
proof (cases "getFileToProcess e s")
  case (Inl err)
  then show ?thesis by (simp add: handleAnalyzeClick_def)
next
  case (Inr opt)
  show ?thesis
  proof (cases opt)
    case None
    with Inr show ?thesis by (simp add: handleAnalyzeClick_def)
  next
    case (Some f)
    show ?thesis
    proof (cases "image_s s")
      case None
      with Inr Some show ?thesis by (simp add: handleAnalyzeClick_def)
    next
      case (Some im)
      from assms have "isl (snd (analyzeIHCImage e f out1 out2))" by (rule analyze_fails)
      with Inr \<open>opt = Some f\<close> Some show ?thesis
        by (simp add: analyze_click_failed(1))
    qed
  qed
qed

lemma analyze_click_result_on_failure:
  assumes "isl (runSingleAnalysis out1) \<or> isl (runSingleAnalysis out2)"
  shows "analysisResult (snd (handleAnalyzeClick e out1 out2 s)) = None
       \<or> snd (handleAnalyzeClick e out1 out2 s) = s"
proof (cases "getFileToProcess e s")
  case (Inl err)
  then show ?thesis by (simp add: handleAnalyzeClick_def)
next
  case (Inr opt)
  show ?thesis
  proof (cases opt)
    case None
    with Inr show ?thesis by (simp add: handleAnalyzeClick_def)
  next
    case (Some f)
    show ?thesis
    proof (cases "image_s s")
      case None
      with Inr Some show ?thesis by (simp add: handleAnalyzeClick_def)
    next
      case (Some im)
      from assms have "isl (snd (analyzeIHCImage e f out1 out2))" by (rule analyze_fails)
      with Inr \<open>opt = Some f\<close> Some show ?thesis
        by (simp add: analyze_click_failed(3))
    qed
  qed
qed

lemma malformed_rejected:
  assumes "malformed j"
  shows "runSingleAnalysis (Parsed j) = Inl (if j = JNull then TypeError else InvalidDataFormat)"
proof -
  have num: "typeof v = T_number \<longleftrightarrow> (\<exists>r. v = Some (JNum r))" for v
    by (cases v rule: typeof.cases) simp_all
  have "field_malformed j k \<longleftrightarrow> typeof (get_prop j k) \<noteq> T_number" for k
    by (cases "get_prop j k" rule: typeof.cases) (simp_all add: field_malformed_def)
  with assms show ?thesis
    by (auto simp: malformed_def runSingleAnalysis_def)
qed

section \<open>The first session, cell by cell\<close>

lemma loaded_eq: "loaded = (initialState Map.empty)\<lparr> image_s := Some \<lparr> img_file = slide_a, img_url = ''blob:a'' \<rparr> \<rparr>"
  by (simp add: loaded_def handleImageUpload_def resetState_def clearSelection_def initialState_def Let_def)

lemma checked_eq:
  "checked = loaded\<lparr> qualityCheckResult := Some \<lparr> is_suitable = True, feedback = ''Sharp.'', issues = [] \<rparr> \<rparr>"
  by (simp add: checked_def handleQualityCheck_def getFileToProcess_def performQualityCheck_def read_ok
      quality_ok_def Let_def loaded_eq initialState_def)

lemma checked_file: "getFileToProcess e checked = Inr (Some slide_a)"
  by (simp add: getFileToProcess_def checked_eq loaded_eq initialState_def)

lemma analysed_eq:
  "analysed = checked
     \<lparr> analysisResult := Some \<lparr> positive_nuclei_count = 11, negative_nuclei_count = 6, total_nuclei_count = 17 \<rparr>,
       localStorage :=
         [''lastAnalysisResult'' \<mapsto> result_json \<lparr> positive_nuclei_count = 11, negative_nuclei_count = 6, total_nuclei_count = 17 \<rparr>,
          ''lastAnalysisImage'' \<mapsto> image_json (file_data slide_a) slide_a] \<rparr>"
  by (simp add: analysed_def handleAnalyzeClick_def getFileToProcess_def read_ok
      first_analysis checkpoints_def Let_def checked_eq loaded_eq initialState_def)

lemma analysed_file: "getFileToProcess e analysed = Inr (Some slide_a)"
  by (simp add: getFileToProcess_def analysed_eq checked_eq loaded_eq initialState_def)

lemma analysed_cells:
  "image_s analysed = Some \<lparr> img_file = slide_a, img_url = ''blob:a'' \<rparr>"
  "mode analysed = ANALYSIS"
  "localStorage analysed ''lastAnalysisImage'' = Some (image_json (file_data slide_a) slide_a)"
  "localStorage analysed ''lastAnalysisResult'' =
     Some (result_json \<lparr> positive_nuclei_count = 11, negative_nuclei_count = 6, total_nuclei_count = 17 \<rparr>)"
  by (simp_all add: analysed_eq checked_eq loaded_eq initialState_def)

section \<open>Failure of the analysis\<close>

text \<open>
  C3, as stated, fails. The handler empties the result cell before it starts the passes
  (line 191), so after a failed second pass the result of an earlier analysis is gone: it
  is not left unchanged.
\<close>

theorem failed_analysis_keeps_prior_result_counterexample:
  "analysisResult analysed =
     Some \<lparr> positive_nuclei_count = 11, negative_nuclei_count = 6, total_nuclei_count = 17 \<rparr>
   \<and> analysisResult (snd (handleAnalyzeClick host_ok (Parsed (raw 10 5 15)) CallRejected analysed)) = None"
proof -
  have img: "image_s analysed = Some \<lparr> img_file = slide_a, img_url = ''blob:a'' \<rparr>"
    by (simp add: analysed_eq checked_eq loaded_eq)
  have "isl (snd (analyzeIHCImage host_ok slide_a (Parsed (raw 10 5 15)) CallRejected))"
    by (simp add: analyze_fails runSingleAnalysis_def)
  from analyze_click_failed(3) [OF img analysed_file this]
  show ?thesis by (simp add: analysed_eq)
qed

text \<open>
  C3, amended. When a pass fails, no averaged result is produced, the stored session is
  exactly what it was, the error message is set, and the result cell is empty, whatever
  it held before.
\<close>

theorem failed_analysis_aborts:
  assumes "image_s s = Some im"
    and "getFileToProcess e s = Inr (Some f)"
    and "isl (runSingleAnalysis out1) \<or> isl (runSingleAnalysis out2)"
  shows "isl (snd (analyzeIHCImage e f out1 out2))
       \<and> localStorage (snd (handleAnalyzeClick e out1 out2 s)) = localStorage s
       \<and> error (snd (handleAnalyzeClick e out1 out2 s)) =
           Some ''An error occurred during analysis. Please try another image.''
       \<and> analysisResult (snd (handleAnalyzeClick e out1 out2 s)) = None"
proof -
  from assms(3) have failed: "isl (snd (analyzeIHCImage e f out1 out2))" by (rule analyze_fails)
  show ?thesis
    using failed analyze_click_failed [OF assms(1,2) failed] by simp
qed

theorem failed_analysis_aborts_witness:
  "isl (snd (analyzeIHCImage host_ok slide_a (Parsed (raw 10 5 15)) CallRejected))
   \<and> localStorage (snd (handleAnalyzeClick host_ok (Parsed (raw 10 5 15)) CallRejected analysed)) =
       [''lastAnalysisResult'' \<mapsto> result_json \<lparr> positive_nuclei_count = 11, negative_nuclei_count = 6, total_nuclei_count = 17 \<rparr>, ''lastAnalysisImage'' \<mapsto> image_json (file_data slide_a) slide_a]
   \<and> error (snd (handleAnalyzeClick host_ok (Parsed (raw 10 5 15)) CallRejected analysed)) =
       Some ''An error occurred during analysis. Please try another image.''
   \<and> analysisResult (snd (handleAnalyzeClick host_ok (Parsed (raw 10 5 15)) CallRejected analysed)) = None"
proof -
  have img: "image_s analysed = Some \<lparr> img_file = slide_a, img_url = ''blob:a'' \<rparr>"
    by (simp add: analysed_eq checked_eq loaded_eq)
  have fails: "isl (runSingleAnalysis (Parsed (raw 10 5 15))) \<or> isl (runSingleAnalysis CallRejected)"
    by (simp add: runSingleAnalysis_def)
  from failed_analysis_aborts [OF img analysed_file fails]
  show ?thesis by (simp add: analysed_eq)
qed

text \<open>
  C4. A raw response in which one of the three counts is missing or is not a number is
  rejected by the pass that receives it (with the format error of line 184, or with the
  \<open>TypeError\<close> of reading a property of \<open>null\<close>); the analysis then fails whether the
  response came first or second, nothing is written to the store, and the result cell is
  empty unless the handler returned before it began.
\<close>

theorem malformed_pass_rejected:
  assumes "malformed j"
    and "out1 = Parsed j \<or> (runSingleAnalysis out1 = Inr r1 \<and> out2 = Parsed j)"
  shows "runSingleAnalysis (Parsed j) = Inl (if j = JNull then TypeError else InvalidDataFormat)
       \<and> isl (snd (analyzeIHCImage e f out1 out2))
       \<and> localStorage (snd (handleAnalyzeClick e out1 out2 s)) = localStorage s
       \<and> (analysisResult (snd (handleAnalyzeClick e out1 out2 s)) = None
          \<or> snd (handleAnalyzeClick e out1 out2 s) = s)"
proof -
  note rej = malformed_rejected [OF assms(1)]
  with assms(2) have fails: "isl (runSingleAnalysis out1) \<or> isl (runSingleAnalysis out2)"
    by auto
  from rej analyze_fails [OF fails] analyze_click_store_on_failure [OF fails]
    analyze_click_result_on_failure [OF fails]
  show ?thesis by blast
qed

theorem malformed_pass_rejected_witness:
  "runSingleAnalysis (Parsed raw_string_count) = Inl InvalidDataFormat
   \<and> isl (snd (analyzeIHCImage host_ok slide_a (Parsed (raw 10 5 15)) (Parsed raw_string_count)))
   \<and> localStorage (snd (handleAnalyzeClick host_ok (Parsed (raw 10 5 15)) (Parsed raw_string_count) checked)) = Map.empty
   \<and> analysisResult (snd (handleAnalyzeClick host_ok (Parsed (raw 10 5 15)) (Parsed raw_string_count) checked)) = None"
proof -
  have bad: "malformed raw_string_count"
    by (simp add: malformed_def field_malformed_def raw_string_count_def)
  have second: "Parsed (raw 10 5 15) = Parsed raw_string_count \<or>
      (runSingleAnalysis (Parsed (raw 10 5 15)) =
         Inr \<lparr> positive_nuclei_count = 10, negative_nuclei_count = 5, total_nuclei_count = 15 \<rparr>
       \<and> Parsed raw_string_count = Parsed raw_string_count)"
    by (simp add: run_raw)
  have moved: "snd (handleAnalyzeClick host_ok (Parsed (raw 10 5 15)) (Parsed raw_string_count) checked) \<noteq> checked"
  proof
    assume same: "snd (handleAnalyzeClick host_ok (Parsed (raw 10 5 15)) (Parsed raw_string_count) checked) = checked"
    have img: "image_s checked = Some \<lparr> img_file = slide_a, img_url = ''blob:a'' \<rparr>"
      by (simp add: checked_eq loaded_eq)
    have "isl (snd (analyzeIHCImage host_ok slide_a (Parsed (raw 10 5 15)) (Parsed raw_string_count)))"
      by (rule analyze_fails) (simp add: malformed_rejected [OF bad])
    from analyze_click_failed(2) [OF img checked_file this] same
    show False by (simp add: checked_eq loaded_eq initialState_def)
  qed
  from malformed_pass_rejected [OF bad second, of host_ok slide_a checked] moved
  show ?thesis
    by (simp add: raw_string_count_def checked_eq loaded_eq initialState_def)
qed

section \<open>Drawing the selection\<close>

lemma to_double_dyadic:
  assumes "\<bar>m\<bar> \<le> 2 ^ 53" "j \<le> 1074"
  shows "to_double (of_int m / 2 ^ j) = of_int m / 2 ^ j"
proof -
  have "pow2 (- int j) = 1 / 2 ^ j" by (cases "j = 0") (simp_all add: pow2_def)
  with to_double_scaled [OF assms(1), of "- int j"] assms(2) show ?thesis by simp
qed

lemma scenario_doubles:
  "to_double (1 / 8) = 1 / 8"
  "to_double (1 / 2) = 1 / 2"
  "to_double (9 / 64) = 9 / 64"
  "to_double (225 / 4) = 225 / 4"
  "to_double (225 / 16) = 225 / 16"
  "to_double (- 100) = - 100"
  "to_double (- (1 / 2)) = - (1 / 2)"
  "to_double (- 50) = - 50"
  using to_double_dyadic [of 1 3] to_double_dyadic [of 1 1] to_double_dyadic [of 9 6]
    to_double_dyadic [of 225 2] to_double_dyadic [of 225 4]
    to_double_int [of "- 100"] to_double_dyadic [of "- 1" 1] to_double_int [of "- 50"]
  by simp_all

lemma point_50_25: "getPointFromEvent (click_at 50 25) = \<lparr> pt_x = 25 / 2, pt_y = 25 / 2 \<rparr>"
  by (simp add: getPointFromEvent_def click_at_def Let_def js_sub_def js_div_def js_mul_def
      exact_doubles scenario_doubles)

lemma point_225_25: "getPointFromEvent (click_at (225 / 4) 25) = \<lparr> pt_x = 225 / 16, pt_y = 25 / 2 \<rparr>"
  by (simp add: getPointFromEvent_def click_at_def Let_def js_sub_def js_div_def js_mul_def
      exact_doubles scenario_doubles)

lemma point_200_100: "getPointFromEvent (click_at 200 100) = \<lparr> pt_x = 50, pt_y = 50 \<rparr>"
  by (simp add: getPointFromEvent_def click_at_def Let_def js_sub_def js_div_def js_mul_def
      exact_doubles scenario_doubles)

lemma point_200_25: "getPointFromEvent (click_at 200 25) = \<lparr> pt_x = 50, pt_y = 25 / 2 \<rparr>"
  by (simp add: getPointFromEvent_def click_at_def Let_def js_sub_def js_div_def js_mul_def
      exact_doubles scenario_doubles)

lemma point_outside: "getPointFromEvent (click_at 1600 (- 100)) = \<lparr> pt_x = 100, pt_y = 0 \<rparr>"
  by (simp add: getPointFromEvent_def click_at_def Let_def js_sub_def js_div_def js_mul_def
      exact_doubles scenario_doubles)

text \<open>
  The two clicks on the preview of 500 pixels. Pixel 2 gives 2 / 500, rounded, times 100,
  rounded: the double nearest to 0.4. Pixel 12 gives the double nearest to 2.4. Their
  difference is \<open>2 - 2^-53\<close>, halfway between two doubles, and rounds to 2.
\<close>

lemma doubles_500:
  "to_double (1 / 250) = 1152921504606847 / 288230376151711744"
  "to_double (28823037615171175 / 72057594037927936) = 3602879701896397 / 9007199254740992"
  "to_double (3 / 125) = 3458764513820541 / 144115188075855872"
  "to_double (86469112845513525 / 36028797018963968) = 5404319552844595 / 2251799813685248"
  "to_double (18014398509481983 / 9007199254740992) = 2"
  using to_double_between [of "- 8" "1 / 250"]
    to_double_between [of "- 2" "28823037615171175 / 72057594037927936"]
    to_double_between [of "- 6" "3 / 125"]
    to_double_between [of 1 "86469112845513525 / 36028797018963968"]
    to_double_between [of 0 "18014398509481983 / 9007199254740992"]
  by (simp_all add: round_half_even_def pow2_def)

lemma point_500_2: "getPointFromEvent (click_500 2 0) =
    \<lparr> pt_x = 3602879701896397 / 9007199254740992, pt_y = 0 \<rparr>"
  by (simp add: getPointFromEvent_def click_500_def Let_def js_sub_def js_div_def js_mul_def
      exact_doubles doubles_500)

lemma point_500_12: "getPointFromEvent (click_500 12 0) =
    \<lparr> pt_x = 5404319552844595 / 2251799813685248, pt_y = 0 \<rparr>"
  by (simp add: getPointFromEvent_def click_500_def Let_def js_sub_def js_div_def js_mul_def
      exact_doubles doubles_500)

lemma rounded_distance_500:
  "rounded_distance \<lparr> pt_x = 5404319552844595 / 2251799813685248, pt_y = 0 \<rparr>
     \<lparr> pt_x = 3602879701896397 / 9007199254740992, pt_y = 0 \<rparr> = 2"
  by (simp add: rounded_distance_def Math_sqrt_def Math_pow_def js_add_def js_sub_def
      exact_doubles doubles_500)

text \<open>
  Inside the normalized square the rounded distance decides as the exact one does, outside
  a band of \<open>10^-8\<close> around the radius: each of the six roundings moves a value below
  \<open>2^15\<close> by at most \<open>2^-37\<close>.
\<close>

lemma rounded_distance_band_coordinates:
  assumes "0 \<le> a" "a \<le> 100" "0 \<le> b" "b \<le> 100" "0 \<le> c" "c \<le> 100" "0 \<le> d" "d \<le> 100"
  shows "sqrt ((a - b)\<^sup>2 + (c - d)\<^sup>2) \<le> 2 - 1 / 10 ^ 8 \<Longrightarrow>
           rounded_distance \<lparr> pt_x = a, pt_y = c \<rparr> \<lparr> pt_x = b, pt_y = d \<rparr> < 2"
    and "2 + 1 / 10 ^ 8 \<le> sqrt ((a - b)\<^sup>2 + (c - d)\<^sup>2) \<Longrightarrow>
           2 \<le> rounded_distance \<lparr> pt_x = a, pt_y = c \<rparr> \<lparr> pt_x = b, pt_y = d \<rparr>"
proof -
  define computed where
    "computed = rounded_distance \<lparr> pt_x = a, pt_y = c \<rparr> \<lparr> pt_x = b, pt_y = d \<rparr>"
  define T where "T = (a - b)\<^sup>2 + (c - d)\<^sup>2"
  define sx where "sx = Math_pow (js_sub a b) 2"
  define sy where "sy = Math_pow (js_sub c d) 2"
  define S where "S = to_double (sx + sy)"
  note x = squared_difference_error [OF assms(1-4), folded sx_def]
  note y = squared_difference_error [OF assms(5-8), folded sy_def]
  have "\<bar>sx + sy\<bar> \<le> 2 ^ 15" using x(2,3) y(2,3) by simp
  then have eS: "\<bar>S - (sx + sy)\<bar> \<le> 1 / 2 ^ 37" unfolding S_def by (rule to_double_error_small)
  have S0: "0 \<le> S" unfolding S_def using x(2) y(2) by (intro to_double_nonneg) simp
  have ST: "\<bar>S - T\<bar> \<le> 405 / 2 ^ 37"
    using x(1) y(1) eS by (simp add: T_def abs_if split: if_splits)
  have "S \<le> 2 ^ 30" using eS x(3) y(3) by (simp add: abs_if split: if_splits)
  then have "sqrt S \<le> sqrt (2 ^ 30)" by (rule real_sqrt_le_mono)
  also have "sqrt (2 ^ 30) = (2::real) ^ 15"
    by (rule real_sqrt_unique) simp_all
  finally have "\<bar>sqrt S\<bar> \<le> 2 ^ 15" using S0 by simp
  then have eD: "\<bar>to_double (sqrt S) - sqrt S\<bar> \<le> 1 / 2 ^ 37" by (rule to_double_error_small)
  have cd: "computed = to_double (sqrt S)"
    by (simp add: computed_def rounded_distance_def Math_sqrt_def js_add_def S_def sx_def sy_def)
  have T0: "0 \<le> T" by (simp add: T_def)
  define lo :: real where "lo = 2 - 1 / 2 ^ 37"
  define hi :: real where "hi = 2 + 1 / 2 ^ 37"
  have lo0: "0 \<le> lo" and hi0: "0 \<le> hi" by (simp_all add: lo_def hi_def)
  {
    assume near: "sqrt T \<le> 2 - 1 / 10 ^ 8"
    have "T = (sqrt T)\<^sup>2" using T0 by simp
    also have "\<dots> \<le> (2 - 1 / 10 ^ 8)\<^sup>2" using near T0 by (intro power_mono) simp_all
    finally have "S < lo\<^sup>2"
      using ST by (simp add: lo_def abs_if power2_eq_square split: if_splits)
    then have "sqrt S < sqrt (lo\<^sup>2)" by (rule real_sqrt_less_mono)
    also have "\<dots> = lo" using lo0 by simp
    finally have "computed < 2"
      using eD by (simp add: cd lo_def abs_if split: if_splits)
  }
  then show "sqrt ((a - b)\<^sup>2 + (c - d)\<^sup>2) \<le> 2 - 1 / 10 ^ 8 \<Longrightarrow>
           rounded_distance \<lparr> pt_x = a, pt_y = c \<rparr> \<lparr> pt_x = b, pt_y = d \<rparr> < 2"
    by (simp add: T_def computed_def)
  {
    assume far: "2 + 1 / 10 ^ 8 \<le> sqrt T"
    have "(2 + 1 / 10 ^ 8)\<^sup>2 \<le> (sqrt T)\<^sup>2" using far by (intro power_mono) simp_all
    also have "\<dots> = T" using T0 by simp
    finally have "hi\<^sup>2 \<le> S"
      using ST by (simp add: hi_def abs_if power2_eq_square split: if_splits)
    then have "sqrt (hi\<^sup>2) \<le> sqrt S" by (rule real_sqrt_le_mono)
    then have "hi \<le> sqrt S" using hi0 by simp
    then have "2 \<le> computed"
      using eD by (simp add: cd hi_def abs_if split: if_splits)
  }
  then show "2 + 1 / 10 ^ 8 \<le> sqrt ((a - b)\<^sup>2 + (c - d)\<^sup>2) \<Longrightarrow>
           2 \<le> rounded_distance \<lparr> pt_x = a, pt_y = c \<rparr> \<lparr> pt_x = b, pt_y = d \<rparr>"
    by (simp add: T_def computed_def)
qed

lemma rounded_distance_band:
  assumes "in_square p" "in_square q"
  shows "euclidean_distance p q \<le> 2 - 1 / 10 ^ 8 \<Longrightarrow> rounded_distance p q < 2"
    and "2 + 1 / 10 ^ 8 \<le> euclidean_distance p q \<Longrightarrow> 2 \<le> rounded_distance p q"
proof -
  have p: "p = \<lparr> pt_x = pt_x p, pt_y = pt_y p \<rparr>" and q: "q = \<lparr> pt_x = pt_x q, pt_y = pt_y q \<rparr>"
    by simp_all
  note band = rounded_distance_band_coordinates [of "pt_x p" "pt_x q" "pt_y p" "pt_y q"]
  from assms show "euclidean_distance p q \<le> 2 - 1 / 10 ^ 8 \<Longrightarrow> rounded_distance p q < 2"
    using band(1) by (subst p, subst q) (simp add: in_square_def euclidean_distance_def)
  from assms show "2 + 1 / 10 ^ 8 \<le> euclidean_distance p q \<Longrightarrow> 2 \<le> rounded_distance p q"
    using band(2) by (subst p, subst q) (simp add: in_square_def euclidean_distance_def)
qed

lemma euclidean_distance_level:
  assumes "pt_y p = pt_y q"
  shows "euclidean_distance p q = \<bar>pt_x p - pt_x q\<bar>"
  using assms by (simp add: euclidean_distance_def)

lemma euclidean_distance_ge:
  "\<bar>pt_x p - pt_x q\<bar> \<le> euclidean_distance p q"
proof -
  have "sqrt ((pt_x p - pt_x q)\<^sup>2) \<le> sqrt ((pt_x p - pt_x q)\<^sup>2 + (pt_y p - pt_y q)\<^sup>2)"
    by (rule real_sqrt_le_mono) simp
  then show ?thesis by (simp add: euclidean_distance_def)
qed

lemma getPointFromEvent_in_square: "in_square (getPointFromEvent ev)"
  by (simp add: getPointFromEvent_def in_square_def Let_def)

lemma click_step:
  assumes "isDrawing s"
  shows "handleImageClick ev s =
     (if selectionPoints s \<noteq> [] \<and> rounded_distance (getPointFromEvent ev) (hd (selectionPoints s)) < 2
      then s\<lparr> isDrawing := False, previewPoint := None \<rparr>
      else s\<lparr> selectionPoints := selectionPoints s @ [getPointFromEvent ev] \<rparr>)"
  using assms
  by (cases "selectionPoints s") (simp_all add: handleImageClick_def rounded_distance_def Let_def)

lemma click_near:
  assumes "isDrawing s" "selectionPoints s = q # qs" "in_square q"
    "euclidean_distance (getPointFromEvent ev) q \<le> 2 - 1 / 10 ^ 8"
  shows "handleImageClick ev s = s\<lparr> isDrawing := False, previewPoint := None \<rparr>"
  using rounded_distance_band(1) [OF getPointFromEvent_in_square assms(3,4)] assms(1,2)
  by (simp add: click_step)

lemma click_far:
  assumes "isDrawing s" "selectionPoints s = q # qs" "in_square q"
    "2 + 1 / 10 ^ 8 \<le> euclidean_distance (getPointFromEvent ev) q"
  shows "handleImageClick ev s = s\<lparr> selectionPoints := selectionPoints s @ [getPointFromEvent ev] \<rparr>"
  using rounded_distance_band(2) [OF getPointFromEvent_in_square assms(3,4)] assms(1,2)
  by (simp add: click_step)

lemma click_first:
  assumes "isDrawing s" "selectionPoints s = []"
  shows "handleImageClick ev s = s\<lparr> selectionPoints := [getPointFromEvent ev] \<rparr>"
  using assms by (simp add: click_step)

lemma one_point_eq: "one_point = loaded\<lparr> selectionPoints := [\<lparr> pt_x = 25 / 2, pt_y = 25 / 2 \<rparr>] \<rparr>"
  unfolding one_point_def
  by (subst click_first) (simp_all add: loaded_eq initialState_def point_50_25)

lemma one_point_closed_eq: "one_point_closed = one_point\<lparr> isDrawing := False \<rparr>"
  unfolding one_point_closed_def
  by (subst click_near [where q = "\<lparr> pt_x = 25 / 2, pt_y = 25 / 2 \<rparr>" and qs = "[]"])
     (simp_all add: one_point_eq loaded_eq initialState_def point_225_25 in_square_def
        euclidean_distance_level)

lemma two_points_eq:
  "two_points = loaded\<lparr> selectionPoints := [\<lparr> pt_x = 25 / 2, pt_y = 25 / 2 \<rparr>, \<lparr> pt_x = 50, pt_y = 50 \<rparr>] \<rparr>"
proof -
  have "2 + 1 / 10 ^ 8 \<le> euclidean_distance \<lparr> pt_x = 50, pt_y = 50 \<rparr> \<lparr> pt_x = 25 / 2, pt_y = 25 / 2 \<rparr>"
    using euclidean_distance_ge [of "\<lparr> pt_x = 50, pt_y = 50 \<rparr>" "\<lparr> pt_x = 25 / 2, pt_y = 25 / 2 \<rparr>"]
    by simp
  then show ?thesis
    unfolding two_points_def
    by (subst click_far [where q = "\<lparr> pt_x = 25 / 2, pt_y = 25 / 2 \<rparr>" and qs = "[]"])
       (simp_all add: one_point_eq loaded_eq initialState_def point_200_100 in_square_def)
qed

lemma three_points_eq:
  "handleImageClick (click_at 200 25) two_points =
     loaded\<lparr> selectionPoints := [\<lparr> pt_x = 25 / 2, pt_y = 25 / 2 \<rparr>, \<lparr> pt_x = 50, pt_y = 50 \<rparr>,
                                  \<lparr> pt_x = 50, pt_y = 25 / 2 \<rparr>] \<rparr>"
  by (subst click_far [where q = "\<lparr> pt_x = 25 / 2, pt_y = 25 / 2 \<rparr>"
        and qs = "[\<lparr> pt_x = 50, pt_y = 50 \<rparr>]"])
     (simp_all add: two_points_eq loaded_eq initialState_def point_200_25 in_square_def
        euclidean_distance_level)

lemma closed_triangle_eq:
  "closed_triangle =
     loaded\<lparr> selectionPoints := [\<lparr> pt_x = 25 / 2, pt_y = 25 / 2 \<rparr>, \<lparr> pt_x = 50, pt_y = 50 \<rparr>,
                                  \<lparr> pt_x = 50, pt_y = 25 / 2 \<rparr>],
             isDrawing := False \<rparr>"
  unfolding closed_triangle_def three_points_eq
  by (subst click_near [where q = "\<lparr> pt_x = 25 / 2, pt_y = 25 / 2 \<rparr>"
        and qs = "[\<lparr> pt_x = 50, pt_y = 50 \<rparr>, \<lparr> pt_x = 50, pt_y = 25 / 2 \<rparr>]"])
     (simp_all add: loaded_eq initialState_def point_50_25 in_square_def euclidean_distance_level)

lemma outside_click_eq: "outside_click = loaded\<lparr> selectionPoints := [\<lparr> pt_x = 100, pt_y = 0 \<rparr>] \<rparr>"
  unfolding outside_click_def
  by (subst click_first) (simp_all add: loaded_eq initialState_def point_outside)

lemma near_first_eq:
  "near_first = loaded\<lparr> selectionPoints := [\<lparr> pt_x = 3602879701896397 / 9007199254740992, pt_y = 0 \<rparr>] \<rparr>"
  unfolding near_first_def
  by (subst click_first) (simp_all add: loaded_eq initialState_def point_500_2)

text \<open>
  The clicks at pixels 7 and 15 of the preview of 400 pixels: the stored points are
  \<open>2 - 2^-52\<close> apart, and the rounded distance stays below 2.
\<close>

lemma doubles_400:
  "to_double (7 / 400) = 1261007895663739 / 72057594037927936"
  "to_double (31525197391593475 / 18014398509481984) = 7881299347898369 / 4503599627370496"
  "to_double (3 / 80) = 5404319552844595 / 144115188075855872"
  "to_double (135107988821114875 / 36028797018963968) = 15 / 4"
  "to_double (9007199254740991 / 4503599627370496) = 9007199254740991 / 4503599627370496"
  "to_double (81129638414606663681390495662081 / 20282409603651670423947251286016) =
     4503599627370495 / 1125899906842624"
  "to_double (4503599627370495 / 1125899906842624) = 4503599627370495 / 1125899906842624"
  using to_double_between [of "- 6" "7 / 400"]
    to_double_between [of 0 "31525197391593475 / 18014398509481984"]
    to_double_between [of "- 5" "3 / 80"]
    to_double_between [of 1 "135107988821114875 / 36028797018963968"]
    to_double_between [of 0 "9007199254740991 / 4503599627370496"]
    to_double_between [of 1 "81129638414606663681390495662081 / 20282409603651670423947251286016"]
    to_double_between [of 1 "4503599627370495 / 1125899906842624"]
  by (simp_all add: round_half_even_def pow2_def)

lemma point_7_25: "getPointFromEvent (click_at 7 25) =
    \<lparr> pt_x = 7881299347898369 / 4503599627370496, pt_y = 25 / 2 \<rparr>"
  by (simp add: getPointFromEvent_def click_at_def Let_def js_sub_def js_div_def js_mul_def
      exact_doubles scenario_doubles doubles_400)

lemma point_15_25: "getPointFromEvent (click_at 15 25) = \<lparr> pt_x = 15 / 4, pt_y = 25 / 2 \<rparr>"
  by (simp add: getPointFromEvent_def click_at_def Let_def js_sub_def js_div_def js_mul_def
      exact_doubles scenario_doubles doubles_400)

lemma rounded_distance_400:
  "rounded_distance \<lparr> pt_x = 15 / 4, pt_y = 25 / 2 \<rparr>
     \<lparr> pt_x = 7881299347898369 / 4503599627370496, pt_y = 25 / 2 \<rparr> < 2"
proof -
  define S :: real where "S = 4503599627370495 / 1125899906842624"
  define r :: real where "r = 9007199254740991 / 4503599627370496"
  have "rounded_distance \<lparr> pt_x = 15 / 4, pt_y = 25 / 2 \<rparr>
     \<lparr> pt_x = 7881299347898369 / 4503599627370496, pt_y = 25 / 2 \<rparr> = to_double (sqrt S)"
    by (simp add: rounded_distance_def Math_sqrt_def Math_pow_def js_add_def js_sub_def
        exact_doubles doubles_400 power2_eq_square S_def)
  moreover have "sqrt S \<le> r"
    by (rule real_le_lsqrt) (simp_all add: S_def r_def power2_eq_square)
  moreover have "0 \<le> sqrt S" by (simp add: S_def)
  moreover note to_double_error [of "sqrt S"]
  ultimately show ?thesis
    by (simp add: r_def abs_if split: if_splits)
qed

lemma seven_px_eq:
  "seven_px = loaded\<lparr> selectionPoints := [\<lparr> pt_x = 7881299347898369 / 4503599627370496, pt_y = 25 / 2 \<rparr>] \<rparr>"
  unfolding seven_px_def
  by (subst click_first) (simp_all add: loaded_eq initialState_def point_7_25)

section \<open>The image sent to the model\<close>

lemma rasterize_ok: "rasterize host_ok f ps = Inr ''PNG''"
  by (simp add: host_ok_def)

lemma quality_check_trace:
  assumes "getFileToProcess e s = Inr (Some f)" "fileToBase64 e f = Inr b"
  shows "fst (handleQualityCheck e out s) = [CallIssued CheckQuality f, CallSettled CheckQuality]"
  using assms
  by (simp add: handleQualityCheck_def performQualityCheck_def Let_def split: call_outcome.splits)

lemma analyze_click_trace:
  assumes "getFileToProcess e s = Inr (Some f)" "image_s s = Some im" "fileToBase64 e (img_file im) = Inr b"
  shows "fst (handleAnalyzeClick e out1 out2 s) = fst (analyzeIHCImage e f out1 out2)"
  using assms
  by (simp add: handleAnalyzeClick_def Let_def split: sum.splits)

lemma analyze_sends:
  assumes "fileToBase64 e f = Inr b"
  shows "set (sent (fst (analyzeIHCImage e f out1 out2))) = {f}"
  using assms
  by (auto simp: analyzeIHCImage_def Let_def split: sum.splits)

lemma getFileToProcess_masked:
  assumes "image_s s = Some im" "length (selectionPoints s) > 2" "\<not> isDrawing s"
    "rasterize e (img_file im) (scaled (selectionPoints s)) = Inr blob"
  shows "getFileToProcess e s = Inr (Some (masked_image (img_file im) blob))"
  using assms
  by (simp add: getFileToProcess_def getMaskedFile_def masked_image_def scaled_def Let_def)

lemma getFileToProcess_original:
  assumes "image_s s = Some im" "\<not> (length (selectionPoints s) > 2 \<and> \<not> isDrawing s)"
  shows "getFileToProcess e s = Inr (Some (img_file im))"
  using assms
  by (auto simp: getFileToProcess_def)

lemma host_reads: "\<forall>g. \<exists>b. fileToBase64 host_ok g = Inr b"
  by (simp add: read_ok)

text \<open>
  C7. With an image loaded, readable files and a working canvas, the quality check and
  the analysis send the same single image to the model: the masked image when the
  selection has more than two points and drawing is finished, the original file in every
  other case.
\<close>

theorem effective_input:
  assumes img: "image_s s = Some im"
    and readable: "\<forall>g. \<exists>b. fileToBase64 e g = Inr b"
    and mask: "length (selectionPoints s) > 2 \<and> \<not> isDrawing s \<longrightarrow>
                 rasterize e (img_file im) (scaled (selectionPoints s)) = Inr blob"
  shows "set (sent (fst (handleQualityCheck e out s))) =
           {if length (selectionPoints s) > 2 \<and> \<not> isDrawing s
            then masked_image (img_file im) blob else img_file im}
       \<and> set (sent (fst (handleAnalyzeClick e out1 out2 s))) =
           {if length (selectionPoints s) > 2 \<and> \<not> isDrawing s
            then masked_image (img_file im) blob else img_file im}"
proof -
  define eff where "eff = (if length (selectionPoints s) > 2 \<and> \<not> isDrawing s
            then masked_image (img_file im) blob else img_file im)"
  have get: "getFileToProcess e s = Inr (Some eff)"
  proof (cases "length (selectionPoints s) > 2 \<and> \<not> isDrawing s")
    case True
    with img mask show ?thesis by (simp add: eff_def getFileToProcess_masked)
  next
    case False
    with img have "getFileToProcess e s = Inr (Some (img_file im))"
      by (rule getFileToProcess_original)
    moreover from False have "eff = img_file im" by (auto simp: eff_def)
    ultimately show ?thesis by simp
  qed
  from readable obtain b where b: "fileToBase64 e eff = Inr b" by blast
  from readable obtain b' where b': "fileToBase64 e (img_file im) = Inr b'" by blast
  have "set (sent (fst (handleQualityCheck e out s))) = {eff}"
    by (simp add: quality_check_trace [OF get b])
  moreover have "set (sent (fst (handleAnalyzeClick e out1 out2 s))) = {eff}"
    by (simp add: analyze_click_trace [OF get img b'] analyze_sends [OF b])
  ultimately show ?thesis by (simp add: eff_def)
qed

theorem effective_input_witness:
  "set (sent (fst (handleQualityCheck host_ok (Parsed quality_ok) closed_triangle))) =
      {\<lparr> file_name = ''masked_a.jpg'', file_type = ''image/png'', file_data = ''PNG'' \<rparr>}
   \<and> set (sent (fst (handleAnalyzeClick host_ok (Parsed (raw 10 5 15)) (Parsed (raw 12 7 19)) closed_triangle))) =
      {\<lparr> file_name = ''masked_a.jpg'', file_type = ''image/png'', file_data = ''PNG'' \<rparr>}
   \<and> set (sent (fst (handleQualityCheck host_ok (Parsed quality_ok) one_point_closed))) = {slide_a}
   \<and> set (sent (fst (handleAnalyzeClick host_ok (Parsed (raw 10 5 15)) (Parsed (raw 12 7 19)) two_points))) = {slide_a}
   \<and> set (sent (fst (handleAnalyzeClick host_ok (Parsed (raw 10 5 15)) (Parsed (raw 12 7 19)) loaded))) = {slide_a}"
proof -
  have i3: "image_s closed_triangle = Some \<lparr> img_file = slide_a, img_url = ''blob:a'' \<rparr>"
    and i1: "image_s one_point_closed = Some \<lparr> img_file = slide_a, img_url = ''blob:a'' \<rparr>"
    and i2: "image_s two_points = Some \<lparr> img_file = slide_a, img_url = ''blob:a'' \<rparr>"
    and i0: "image_s loaded = Some \<lparr> img_file = slide_a, img_url = ''blob:a'' \<rparr>"
    by (simp_all add: closed_triangle_eq one_point_closed_eq one_point_eq two_points_eq loaded_eq)
  show ?thesis
    using effective_input [OF i3 host_reads, of "''PNG''" "Parsed quality_ok" "Parsed (raw 10 5 15)" "Parsed (raw 12 7 19)"]
      effective_input [OF i1 host_reads, of "''PNG''" "Parsed quality_ok" "Parsed (raw 10 5 15)" "Parsed (raw 12 7 19)"]
      effective_input [OF i2 host_reads, of "''PNG''" "Parsed quality_ok" "Parsed (raw 10 5 15)" "Parsed (raw 12 7 19)"]
      effective_input [OF i0 host_reads, of "''PNG''" "Parsed quality_ok" "Parsed (raw 10 5 15)" "Parsed (raw 12 7 19)"]
    by (simp add: rasterize_ok masked_image_def slide_a_def
        closed_triangle_eq one_point_closed_eq one_point_eq two_points_eq loaded_eq initialState_def)
qed

section \<open>Reachable states\<close>

lemma analyze_click_selection:
  "selectionPoints (snd (handleAnalyzeClick e out1 out2 s)) = selectionPoints s"
  "isDrawing (snd (handleAnalyzeClick e out1 out2 s)) = isDrawing s"
  by (simp_all add: handleAnalyzeClick_def Let_def fold_onProgress_same
      split: sum.splits option.splits)

lemma quality_check_selection:
  "selectionPoints (snd (handleQualityCheck e out s)) = selectionPoints s"
  "isDrawing (snd (handleQualityCheck e out s)) = isDrawing s"
  by (simp_all add: handleQualityCheck_def Let_def split: sum.splits option.splits)

lemma resetState_selection:
  "selectionPoints (resetState c s) = []"
  "isDrawing (resetState c s)"
  by (simp_all add: resetState_def clearSelection_def Let_def split: option.splits)

lemma edit_click_selection:
  "snd (handleEditClick e out s) = s \<or>
   (selectionPoints (snd (handleEditClick e out s)) = [] \<and> isDrawing (snd (handleEditClick e out s)))"
  by (simp add: handleEditClick_def Let_def resetState_selection split: sum.splits option.splits)

lemma click_inv: "selection_inv s \<Longrightarrow> selection_inv (handleImageClick ev s)"
  by (auto simp: selection_inv_def handleImageClick_def Let_def getPointFromEvent_in_square)

lemma step_inv: "selection_inv s \<Longrightarrow> selection_inv (step e a s)"
proof (cases a)
  case (ImageClick ev)
  assume "selection_inv s"
  with ImageClick show ?thesis by (simp add: click_inv)
next
  case (Edit out)
  assume "selection_inv s"
  with Edit edit_click_selection [of e out s] show ?thesis
    by (auto simp: selection_inv_def)
qed (auto simp: selection_inv_def handleMouseMove_def clearSelection_def resetState_selection
      handleImageUpload_def quality_check_selection analyze_click_selection navigate_def)

lemma reachable_selection_inv: "reachable s \<Longrightarrow> selection_inv s"
proof (induction rule: reachable.induct)
  case (mounted parsed store)
  show ?case
    by (simp add: selection_inv_def loadLastSession_def initialState_def split: option.splits prod.splits)
next
  case (acted s a e)
  then show ?case by (simp add: step_inv)
qed

lemma started: "reachable (initialState Map.empty)"
  using reachable.mounted [of None Map.empty]
  by (simp add: loadLastSession_def sessionRecordPresent_def initialState_def)

lemma reachable_loaded: "reachable loaded"
  using reachable.acted [OF started, of "ImageUpload slide_a ''blob:a''" host_ok]
  by (simp add: loaded_def uploaderShown_def panelsShown_def initialState_def)

lemma loaded_preview: "previewShown loaded"
  by (simp add: previewShown_def panelsShown_def loaded_eq initialState_def)

lemma reachable_one_point: "reachable one_point"
  using reachable.acted [OF reachable_loaded, of "ImageClick (click_at 50 25)" host_ok]
  by (simp add: one_point_def loaded_preview click_at_def)

lemma one_point_preview: "previewShown one_point"
  by (simp add: previewShown_def panelsShown_def one_point_eq loaded_eq initialState_def)

lemma reachable_one_point_closed: "reachable one_point_closed"
  using reachable.acted [OF reachable_one_point, of "ImageClick (click_at (225 / 4) 25)" host_ok]
  by (simp add: one_point_closed_def one_point_preview click_at_def)

lemma reachable_two_points: "reachable two_points"
  using reachable.acted [OF reachable_one_point, of "ImageClick (click_at 200 100)" host_ok]
  by (simp add: two_points_def one_point_preview click_at_def)

lemma reachable_outside_click: "reachable outside_click"
  using reachable.acted [OF reachable_loaded, of "ImageClick (click_at 1600 (- 100))" host_ok]
  by (simp add: outside_click_def loaded_preview click_at_def)

lemma reachable_checked: "reachable checked"
  using reachable.acted [OF reachable_loaded, of "QualityCheck (Parsed quality_ok)" host_ok]
  by (simp add: checked_def qualityCheckButtonEnabled_def qualityCheckButtonShown_def hasSelection_def
      loaded_preview) (simp add: loaded_eq initialState_def)

lemma reachable_analysed: "reachable analysed"
  using reachable.acted [OF reachable_checked, of "Analyze (Parsed (raw 10 5 15)) (Parsed (raw 12 7 19))" host_ok]
  by (simp add: analysed_def analyzeButtonEnabled_def analyzeButtonShown_def hasSelection_def
      previewShown_def panelsShown_def) (simp add: checked_eq loaded_eq initialState_def)

lemma reachable_near_first: "reachable near_first"
  using reachable.acted [OF reachable_loaded, of "ImageClick (click_500 2 0)" host_ok]
  by (simp add: near_first_def loaded_preview click_500_def)

section \<open>The click on the preview\<close>

text \<open>
  C2, as stated, fails. On a preview of 500 pixels the first point is the click at pixel 2,
  stored as the double nearest to 0.4; a click at pixel 12 is the double nearest to 2.4.
  The two stored points are less than 2 apart, by \<open>2^-53\<close>, but the handler computes
  their difference as exactly 2 and appends the point.
\<close>

theorem click_within_radius_counterexample:
  "reachable near_first \<and> isDrawing near_first
   \<and> selectionPoints near_first = [\<lparr> pt_x = 3602879701896397 / 9007199254740992, pt_y = 0 \<rparr>]
   \<and> getPointFromEvent (click_500 12 0) = \<lparr> pt_x = 5404319552844595 / 2251799813685248, pt_y = 0 \<rparr>
   \<and> euclidean_distance \<lparr> pt_x = 5404319552844595 / 2251799813685248, pt_y = 0 \<rparr>
         \<lparr> pt_x = 3602879701896397 / 9007199254740992, pt_y = 0 \<rparr> < 2
   \<and> isDrawing (handleImageClick (click_500 12 0) near_first)
   \<and> selectionPoints (handleImageClick (click_500 12 0) near_first) =
       [\<lparr> pt_x = 3602879701896397 / 9007199254740992, pt_y = 0 \<rparr>,
        \<lparr> pt_x = 5404319552844595 / 2251799813685248, pt_y = 0 \<rparr>]"
proof -
  have drawing: "isDrawing near_first"
    and points: "selectionPoints near_first = [\<lparr> pt_x = 3602879701896397 / 9007199254740992, pt_y = 0 \<rparr>]"
    by (simp_all add: near_first_eq loaded_eq initialState_def)
  have close: "euclidean_distance \<lparr> pt_x = 5404319552844595 / 2251799813685248, pt_y = 0 \<rparr>
         \<lparr> pt_x = 3602879701896397 / 9007199254740992, pt_y = 0 \<rparr> < 2"
    by (simp add: euclidean_distance_level)
  have "handleImageClick (click_500 12 0) near_first =
      near_first\<lparr> selectionPoints := selectionPoints near_first @ [getPointFromEvent (click_500 12 0)] \<rparr>"
    by (simp add: click_step [OF drawing] points point_500_12 rounded_distance_500)
  then have "isDrawing (handleImageClick (click_500 12 0) near_first)
    \<and> selectionPoints (handleImageClick (click_500 12 0) near_first) =
       [\<lparr> pt_x = 3602879701896397 / 9007199254740992, pt_y = 0 \<rparr>,
        \<lparr> pt_x = 5404319552844595 / 2251799813685248, pt_y = 0 \<rparr>]"
    by (simp add: drawing points point_500_12)
  with reachable_near_first drawing points point_500_12 close show ?thesis by simp
qed

text \<open>
  C2, amended. While the selection is being drawn and its stored points lie in the
  normalized square, a click (on a preview of positive width and height) on a polygon of
  at least one point closes the polygon and adds nothing exactly when the distance to the
  first point, as the handler computes it in double arithmetic, is below 2; every other
  click appends the clicked point and leaves the polygon open. The computed distance decides as the Euclidean distance does outside
  a band of \<open>10^-8\<close> around the radius: a distance of at most \<open>2 - 10^-8\<close> closes, a
  distance of at least \<open>2 + 10^-8\<close> appends.
\<close>

theorem click_closes_or_appends:
  assumes "isDrawing s" and "list_all in_square (selectionPoints s)"
    and "0 < rect_width ev" and "0 < rect_height ev"
  shows "(if 1 \<le> length (selectionPoints s)
             \<and> rounded_distance (getPointFromEvent ev) (hd (selectionPoints s)) < 2
          then \<not> isDrawing (handleImageClick ev s)
               \<and> selectionPoints (handleImageClick ev s) = selectionPoints s
          else isDrawing (handleImageClick ev s)
               \<and> selectionPoints (handleImageClick ev s) = selectionPoints s @ [getPointFromEvent ev])
       \<and> (1 \<le> length (selectionPoints s)
            \<and> euclidean_distance (getPointFromEvent ev) (hd (selectionPoints s)) \<le> 2 - 1 / 10 ^ 8
          \<longrightarrow> \<not> isDrawing (handleImageClick ev s)
               \<and> selectionPoints (handleImageClick ev s) = selectionPoints s)
       \<and> (selectionPoints s = []
            \<or> 2 + 1 / 10 ^ 8 \<le> euclidean_distance (getPointFromEvent ev) (hd (selectionPoints s))
          \<longrightarrow> isDrawing (handleImageClick ev s)
               \<and> selectionPoints (handleImageClick ev s) = selectionPoints s @ [getPointFromEvent ev])"
proof (cases "selectionPoints s")
  case Nil
  with assms(1) show ?thesis by (simp add: click_step)
next
  case (Cons q qs)
  with assms(2) have q: "in_square q" by simp
  note band = rounded_distance_band [OF getPointFromEvent_in_square [of ev] q]
  have decided: "if rounded_distance (getPointFromEvent ev) q < 2
          then \<not> isDrawing (handleImageClick ev s)
               \<and> selectionPoints (handleImageClick ev s) = selectionPoints s
          else isDrawing (handleImageClick ev s)
               \<and> selectionPoints (handleImageClick ev s) = selectionPoints s @ [getPointFromEvent ev]"
    using assms(1) Cons by (simp add: click_step)
  have near: "euclidean_distance (getPointFromEvent ev) q \<le> 2 - 1 / 10 ^ 8
      \<longrightarrow> \<not> isDrawing (handleImageClick ev s)
               \<and> selectionPoints (handleImageClick ev s) = selectionPoints s"
    using decided band(1) by auto
  have far: "2 + 1 / 10 ^ 8 \<le> euclidean_distance (getPointFromEvent ev) q
      \<longrightarrow> isDrawing (handleImageClick ev s)
               \<and> selectionPoints (handleImageClick ev s) = selectionPoints s @ [getPointFromEvent ev]"
    using decided band(2) by (auto simp: not_less [symmetric])
  from decided near far Cons show ?thesis by simp
qed

theorem click_closes_or_appends_witness:
  "\<not> isDrawing (handleImageClick (click_at (225 / 4) 25) one_point)
   \<and> selectionPoints (handleImageClick (click_at (225 / 4) 25) one_point) =
       [\<lparr> pt_x = 25 / 2, pt_y = 25 / 2 \<rparr>]
   \<and> isDrawing (handleImageClick (click_at 200 100) one_point)
   \<and> selectionPoints (handleImageClick (click_at 200 100) one_point) =
       [\<lparr> pt_x = 25 / 2, pt_y = 25 / 2 \<rparr>, \<lparr> pt_x = 50, pt_y = 50 \<rparr>]
   \<and> isDrawing (handleImageClick (click_at 200 100) loaded)
   \<and> selectionPoints (handleImageClick (click_at 200 100) loaded) = [\<lparr> pt_x = 50, pt_y = 50 \<rparr>]
   \<and> \<not> isDrawing (handleImageClick (click_at 15 25) seven_px)
   \<and> selectionPoints (handleImageClick (click_at 15 25) seven_px) =
       [\<lparr> pt_x = 7881299347898369 / 4503599627370496, pt_y = 25 / 2 \<rparr>]"
proof -
  have d1: "isDrawing one_point" and d0: "isDrawing loaded" and d7: "isDrawing seven_px"
    and s1: "list_all in_square (selectionPoints one_point)"
    and s0: "list_all in_square (selectionPoints loaded)"
    and s7: "list_all in_square (selectionPoints seven_px)"
    by (simp_all add: one_point_eq seven_px_eq loaded_eq initialState_def in_square_def)
  have far: "2 + 1 / 10 ^ 8 \<le> euclidean_distance \<lparr> pt_x = 50, pt_y = 50 \<rparr> \<lparr> pt_x = 25 / 2, pt_y = 25 / 2 \<rparr>"
    using euclidean_distance_ge [of "\<lparr> pt_x = 50, pt_y = 50 \<rparr>" "\<lparr> pt_x = 25 / 2, pt_y = 25 / 2 \<rparr>"]
    by simp
  have box: "0 < rect_width (click_at cx cy)" "0 < rect_height (click_at cx cy)" for cx cy
    by (simp_all add: click_at_def)
  show ?thesis
    using click_closes_or_appends [OF d1 s1 box, of "225 / 4" 25]
      click_closes_or_appends [OF d1 s1 box, of 200 100]
      click_closes_or_appends [OF d0 s0 box, of 200 100]
      click_closes_or_appends [OF d7 s7 box, of 15 25]
      far rounded_distance_400
    by (simp add: point_225_25 point_200_100 point_15_25 one_point_eq seven_px_eq loaded_eq
        initialState_def euclidean_distance_level)
qed

section \<open>Invariants of the selection\<close>

text \<open>
  C8, as stated, fails. The click handler closes a polygon as soon as it has one point
  (line 241): after one click, a second click next to it gives a closed polygon of a
  single point.
\<close>

theorem closed_polygon_three_points_counterexample:
  "reachable one_point_closed \<and> \<not> isDrawing one_point_closed
   \<and> length (selectionPoints one_point_closed) = 1"
proof -
  have "\<not> isDrawing one_point_closed \<and> length (selectionPoints one_point_closed) = 1"
    by (simp add: one_point_closed_eq one_point_eq)
  with reachable_one_point_closed show ?thesis by simp
qed

text \<open>
  C8, amended. In every reachable state the polygon is open or closed, and a closed
  polygon has at least one point.
\<close>

theorem closed_polygon_has_a_point:
  assumes "reachable s" and "\<not> isDrawing s"
  shows "1 \<le> length (selectionPoints s)"
  using reachable_selection_inv [OF assms(1)] assms(2)
  by (cases "selectionPoints s") (simp_all add: selection_inv_def)

theorem closed_polygon_has_a_point_witness:
  "reachable one_point_closed \<and> \<not> isDrawing one_point_closed
   \<and> 1 \<le> length (selectionPoints one_point_closed)"
proof -
  have closed: "\<not> isDrawing one_point_closed" by (simp add: one_point_closed_eq)
  from reachable_one_point_closed closed
    closed_polygon_has_a_point [OF reachable_one_point_closed closed]
  show ?thesis by simp
qed

text \<open>
  C10. In every reachable state each stored point of the selection has both coordinates
  between 0 and 100, wherever the clicks fell.
\<close>

theorem stored_points_in_square:
  assumes "reachable s"
  shows "\<forall>p \<in> set (selectionPoints s). 0 \<le> pt_x p \<and> pt_x p \<le> 100 \<and> 0 \<le> pt_y p \<and> pt_y p \<le> 100"
  using reachable_selection_inv [OF assms]
  by (simp add: selection_inv_def list_all_iff in_square_def)

theorem stored_points_in_square_witness:
  "reachable outside_click
   \<and> selectionPoints outside_click = [\<lparr> pt_x = 100, pt_y = 0 \<rparr>]
   \<and> 0 \<le> pt_x (selectionPoints outside_click ! 0) \<and> pt_x (selectionPoints outside_click ! 0) \<le> 100
   \<and> 0 \<le> pt_y (selectionPoints outside_click ! 0) \<and> pt_y (selectionPoints outside_click ! 0) \<le> 100"
proof -
  have pts: "selectionPoints outside_click = [\<lparr> pt_x = 100, pt_y = 0 \<rparr>]"
    by (simp add: outside_click_eq)
  then have "selectionPoints outside_click ! 0 \<in> set (selectionPoints outside_click)" by simp
  with stored_points_in_square [OF reachable_outside_click] reachable_outside_click pts
  show ?thesis by blast
qed

section \<open>Loading a new image\<close>

lemma resetState_cells:
  "analysisResult (resetState c s) = None"
  "qualityCheckResult (resetState c s) = None"
  "previewPoint (resetState c s) = None"
  "error (resetState c s) = None"
  "\<not> isLoading (resetState c s)"
  "localStorage (resetState c s) ''lastAnalysisResult'' = None"
  by (simp_all add: resetState_def clearSelection_def Let_def split: option.splits)

lemma resetState_no_image:
  assumes "image_s s = None"
  shows "localStorage (resetState c s) ''lastAnalysisImage'' = localStorage s ''lastAnalysisImage''"
  using assms by (simp add: resetState_def clearSelection_def Let_def)

lemma resetState_keeps_image:
  "image_s (resetState False s) = image_s s"
  "localStorage (resetState False s) ''lastAnalysisImage'' = localStorage s ''lastAnalysisImage''"
  "mode (resetState False s) = mode s"
  "prompt (resetState False s) = prompt s"
  by (simp_all add: resetState_def clearSelection_def Let_def split: option.splits)

lemma edit_refused_cells:
  "image_s edit_refused = Some \<lparr> img_file = slide_a, img_url = ''blob:a'' \<rparr>"
  "localStorage edit_refused ''lastAnalysisImage'' = Some (image_json (file_data slide_a) slide_a)"
  "localStorage edit_refused ''lastAnalysisResult'' = None"
  by (simp_all add: edit_refused_def handleEditClick_def navigate_def analysed_cells
      editImageWithText_def read_ok Let_def resetState_keeps_image resetState_cells)

lemma reachable_edit_refused: "reachable edit_refused"
proof -
  have editor: "editorShown (navigate EDIT analysed)"
    by (simp add: editorShown_def panelsShown_def navigate_def analysed_eq checked_eq loaded_eq initialState_def)
  have r1: "reachable (navigate EDIT analysed)"
    using reachable.acted [OF reachable_analysed, of "Navigate EDIT" host_ok] by simp
  have r2: "reachable ((navigate EDIT analysed)\<lparr> prompt := ''sharpen'' \<rparr>)"
    using reachable.acted [OF r1, of "SetPrompt ''sharpen''" host_ok] editor by simp
  have "enabled (Edit EditRejected) ((navigate EDIT analysed)\<lparr> prompt := ''sharpen'' \<rparr>)"
    by (simp add: editorShown_def panelsShown_def navigate_def analysed_eq checked_eq loaded_eq initialState_def)
  from reachable.acted [OF r2 this, of host_ok] show ?thesis
    by (simp add: edit_refused_def)
qed

lemma reloaded_eq: "reloaded = initialState (localStorage edit_refused)"
  by (simp add: reloaded_def loadLastSession_def sessionRecordPresent_def initialState_def edit_refused_cells)

lemma reachable_second_image: "reachable second_image"
proof -
  have "reachable reloaded" unfolding reloaded_def by (rule reachable.mounted)
  moreover have "enabled (ImageUpload slide_b ''blob:b'') reloaded"
    by (simp add: uploaderShown_def panelsShown_def reloaded_eq initialState_def)
  ultimately have "reachable (step host_ok (ImageUpload slide_b ''blob:b'') reloaded)"
    by (rule reachable.acted)
  then show ?thesis by (simp add: second_image_def)
qed

text \<open>
  C9, on the code. \<open>resetState\<close> removes the stored image only inside the branch that
  releases a loaded image (lines 85-89), while the stored result is removed in every
  case. After an analysis of a first image, an edit attempt and a reload, no image is
  loaded and the payload of the first image is still stored; loading a second image
  leaves that payload in the store.
\<close>

theorem load_image_leaves_stored_image:
  "reachable edit_refused \<and> reachable second_image
   \<and> image_s second_image = Some \<lparr> img_file = slide_b, img_url = ''blob:b'' \<rparr>
   \<and> localStorage second_image ''lastAnalysisImage'' = Some (image_json ''QUFB'' slide_a)"
proof -
  have "image_s second_image = Some \<lparr> img_file = slide_b, img_url = ''blob:b'' \<rparr>"
    by (simp add: second_image_def handleImageUpload_def)
  moreover have "localStorage second_image ''lastAnalysisImage'' = Some (image_json ''QUFB'' slide_a)"
    by (simp add: second_image_def handleImageUpload_def resetState_no_image reloaded_eq
        initialState_def edit_refused_cells) (simp add: slide_a_def)
  ultimately show ?thesis
    using reachable_edit_refused reachable_second_image by simp
qed

end
